theory Spec2Isabelle
  imports Main "HOL-Library.Sublist" "HOL-Library.Product_Lexorder" "HOL-Library.Monad_Syntax"
begin

section \<open>Data model\<close>

text \<open>
  A Python \<open>datetime\<close> (naive, as the repository uses it) is the tuple of its fields
  year, month, day, hour, minute, second, microsecond.  Python compares two naive
  datetimes field by field in that order, which is the lexicographic order on the tuple.
\<close>

type_synonym datetime = "nat \<times> nat \<times> nat \<times> nat \<times> nat \<times> nat \<times> nat"

text \<open>
  Modelled from the spec: \<open>models/schema.py\<close> is not part of the sources.  The kinds are
  the members the sources and their tests use (\<open>NoteType.PERMANENT\<close>, \<open>LinkType.REFERENCE\<close>,
  ...); the \<open>value\<close> of a member is its lower-case name, as the text files show.
\<close>

datatype NoteType = FLEETING | LITERATURE | PERMANENT

datatype LinkType = REFERENCE | EXTENDS | CONTRAST

fun NoteType_value :: "NoteType \<Rightarrow> string" where
  "NoteType_value FLEETING = ''fleeting''"
| "NoteType_value LITERATURE = ''literature''"
| "NoteType_value PERMANENT = ''permanent''"

fun LinkType_value :: "LinkType \<Rightarrow> string" where
  "LinkType_value REFERENCE = ''reference''"
| "LinkType_value EXTENDS = ''extends''"
| "LinkType_value CONTRAST = ''contrast''"

text \<open>\<open>NoteType(s)\<close> and \<open>LinkType(s)\<close>: the member with that value, or \<open>ValueError\<close> (\<open>None\<close>).\<close>

definition NoteType_of :: "string \<Rightarrow> NoteType option" where
  "NoteType_of s =
     (if s = ''fleeting'' then Some FLEETING
      else if s = ''literature'' then Some LITERATURE
      else if s = ''permanent'' then Some PERMANENT
      else None)"

definition LinkType_of :: "string \<Rightarrow> LinkType option" where
  "LinkType_of s =
     (if s = ''reference'' then Some REFERENCE
      else if s = ''extends'' then Some EXTENDS
      else if s = ''contrast'' then Some CONTRAST
      else None)"

text \<open>
  A value of the metadata mapping (a YAML or JSON value).  Only what the code inspects is
  kept: a string, a list (each element given by its \<open>str()\<close> rendering), or any other
  value, given by its truthiness and its \<open>str()\<close> rendering.
\<close>

datatype yaml = YStr string | YList "string list" | YOther bool string

datatype Tag = Tag (name: string)

record Link =
  source_id :: string
  target_id :: string
  link_type :: LinkType
  description :: "string option"
  link_created_at :: "datetime option"

record Note =
  note_id :: string
  title :: string
  content :: string
  note_type :: NoteType
  tags :: "Tag list"
  links :: "Link list"
  created_at :: datetime
  updated_at :: datetime
  metadata :: "string \<rightharpoonup> yaml"

section \<open>The relational store\<close>

text \<open>
  The persisted schema: \<open>notes(id PK, title, content, kind, created_at, updated_at,
  metadata)\<close>, \<open>tags(name UNIQUE)\<close>, \<open>note_tags(note_id, tag)\<close> and
  \<open>links(source_id, target_id, kind, description, created_at)\<close>.  Each table is the list
  of its rows in insertion order.  A tag row is identified by its unique name.
\<close>

record DBNote =
  db_id :: string
  db_title :: string
  db_content :: string
  db_note_type :: string
  db_created_at :: datetime
  db_updated_at :: datetime
  db_extra_metadata :: "string \<rightharpoonup> yaml"

record DBLink =
  dbl_source_id :: string
  dbl_target_id :: string
  dbl_link_type :: string
  dbl_description :: "string option"
  dbl_created_at :: datetime

record database =
  notes_tbl :: "DBNote list"
  tags_tbl :: "string list"
  note_tags_tbl :: "(string \<times> string) list"
  links_tbl :: "DBLink list"

text \<open>
  Every error the repository raises is a Python \<open>ValueError\<close>; the constructor tells which
  \<open>raise\<close> it is: \<open>"Note with ID ... already exists"\<close> (create), \<open>"... not found"\<close>
  (update), \<open>"... does not exist"\<close> (delete), and the \<open>ValueError\<close> of an enum lookup.
\<close>

datatype error = AlreadyExists string | NotFound string | DoesNotExist string
  | EnumValueError string

text \<open>\<open>session.scalar(select(DBNote).where(DBNote.id == id))\<close>\<close>

definition find_note :: "database \<Rightarrow> string \<Rightarrow> DBNote option" where
  "find_note db i = find (\<lambda>r. db_id r = i) (notes_tbl db)"

text \<open>The relationships \<open>DBNote.tags\<close> and \<open>DBNote.outgoing_links\<close>.\<close>

definition note_tags :: "database \<Rightarrow> string \<Rightarrow> string list" where
  "note_tags db i = map snd (filter (\<lambda>p. fst p = i) (note_tags_tbl db))"

definition outgoing_links :: "database \<Rightarrow> string \<Rightarrow> DBLink list" where
  "outgoing_links db i = filter (\<lambda>l. dbl_source_id l = i) (links_tbl db)"

definition db_link_to_link :: "DBLink \<Rightarrow> Link option" where
  "db_link_to_link l =
     (case LinkType_of (dbl_link_type l) of
        None \<Rightarrow> None
      | Some k \<Rightarrow> Some \<lparr>source_id = dbl_source_id l, target_id = dbl_target_id l,
          link_type = k, description = dbl_description l,
          link_created_at = Some (dbl_created_at l)\<rparr>)"

text \<open>\<open>_db_note_to_note\<close>: the links are converted first, then the note is built.\<close>

definition db_note_to_note :: "database \<Rightarrow> DBNote \<Rightarrow> error + Note" where
  "db_note_to_note db r =
     (case those (map db_link_to_link (outgoing_links db (db_id r))) of
        None \<Rightarrow> Inl (EnumValueError ''LinkType'')
      | Some ls \<Rightarrow>
          (case NoteType_of (db_note_type r) of
             None \<Rightarrow> Inl (EnumValueError ''NoteType'')
           | Some k \<Rightarrow> Inr \<lparr>note_id = db_id r, title = db_title r, content = db_content r,
               note_type = k, tags = map Tag (note_tags db (db_id r)), links = ls,
               created_at = db_created_at r, updated_at = db_updated_at r,
               metadata = db_extra_metadata r\<rparr>))"

text \<open>The loop \<open>for tag in item.tags\<close> of create and update.\<close>

fun add_tags :: "string \<Rightarrow> Tag list \<Rightarrow> database \<Rightarrow> database" where
  "add_tags i [] db = db"
| "add_tags i (t # ts) db =
     add_tags i ts
       (db\<lparr>tags_tbl := (if name t \<in> set (tags_tbl db) then tags_tbl db
                         else tags_tbl db @ [name t]),
           note_tags_tbl := note_tags_tbl db @ [(i, name t)]\<rparr>)"

text \<open>
  The loop \<open>for link in item.links\<close> of create and update: a link row is added only when a
  note with the link's target id is in the session; \<open>now\<close> is the clock reading used for
  \<open>link.created_at or datetime.datetime.now()\<close>.
\<close>

definition to_db_link :: "datetime \<Rightarrow> string \<Rightarrow> Link \<Rightarrow> DBLink" where
  "to_db_link now i l =
     \<lparr>dbl_source_id = i, dbl_target_id = target_id l,
      dbl_link_type = LinkType_value (link_type l), dbl_description = description l,
      dbl_created_at = (case link_created_at l of None \<Rightarrow> now | Some d \<Rightarrow> d)\<rparr>"

fun add_links :: "datetime \<Rightarrow> string \<Rightarrow> Link list \<Rightarrow> database \<Rightarrow> database" where
  "add_links now i [] db = db"
| "add_links now i (l # ls) db =
     add_links now i ls
       (case find_note db (target_id l) of
          None \<Rightarrow> db
        | Some target_exists \<Rightarrow> db\<lparr>links_tbl := links_tbl db @ [to_db_link now i l]\<rparr>)"

text \<open>The row \<open>DBNote(id=item.id, ...)\<close> that create adds.\<close>

definition created_row :: "Note \<Rightarrow> DBNote" where
  "created_row item =
     \<lparr>db_id = note_id item, db_title = title item, db_content = content item,
      db_note_type = NoteType_value (note_type item),
      db_created_at = created_at item, db_updated_at = updated_at item,
      db_extra_metadata = metadata item\<rparr>"

text \<open>
  The assignments \<open>db_note.title = item.title\<close> ... of update: the row keeps its id and
  its \<open>created_at\<close>, and \<open>updated_at\<close> becomes the clock reading \<open>now\<close>.
\<close>

definition updated_row :: "datetime \<Rightarrow> Note \<Rightarrow> DBNote \<Rightarrow> DBNote" where
  "updated_row now item db_note =
     db_note\<lparr>db_title := title item, db_content := content item,
       db_note_type := NoteType_value (note_type item),
       db_updated_at := now, db_extra_metadata := metadata item\<rparr>"

text \<open>
  Each operation returns its result (or the error it raises) and the store afterwards;
  an operation that raises before \<open>session.commit()\<close> leaves the store as it was.
\<close>

definition create :: "datetime \<Rightarrow> database \<Rightarrow> Note \<Rightarrow> (error + Note) \<times> database" where
  "create now db item =
     (case find_note db (note_id item) of
        Some existing \<Rightarrow> (Inl (AlreadyExists (note_id item)), db)
      | None \<Rightarrow>
          (let db_note = created_row item;
               db1 = db\<lparr>notes_tbl := notes_tbl db @ [db_note]\<rparr>;
               db2 = add_tags (note_id item) (tags item) db1;
               db3 = add_links now (note_id item) (links item) db2
           in (db_note_to_note db3 db_note, db3)))"

definition read :: "database \<Rightarrow> string \<Rightarrow> error + Note option" where
  "read db i =
     (case find_note db i of
        None \<Rightarrow> Inr None
      | Some db_note \<Rightarrow>
          (case db_note_to_note db db_note of Inl e \<Rightarrow> Inl e | Inr n \<Rightarrow> Inr (Some n)))"

text \<open>
  \<open>update\<close>: the tag associations and the outgoing links of the note are removed and
  written again from the supplied note.
\<close>

definition update :: "datetime \<Rightarrow> database \<Rightarrow> Note \<Rightarrow> (error + Note) \<times> database" where
  "update now db item =
     (case find_note db (note_id item) of
        None \<Rightarrow> (Inl (NotFound (note_id item)), db)
      | Some db_note \<Rightarrow>
          (let db_note' = updated_row now item db_note;
               db1 = db\<lparr>notes_tbl :=
                        map (\<lambda>r. if db_id r = note_id item then db_note' else r) (notes_tbl db),
                      note_tags_tbl :=
                        filter (\<lambda>p. fst p \<noteq> note_id item) (note_tags_tbl db)\<rparr>;
               db2 = add_tags (note_id item) (tags item) db1;
               db3 = db2\<lparr>links_tbl :=
                        filter (\<lambda>l. dbl_source_id l \<noteq> note_id item) (links_tbl db2)\<rparr>;
               db4 = add_links now (note_id item) (links item) db3
           in (db_note_to_note db4 db_note', db4)))"

text \<open>
  \<open>delete\<close>.  Modelled from the spec: the cascade of \<open>session.delete(db_note)\<close> is
  declared in \<open>models/db_models_sqlite.py\<close>, which is not part of the sources; by the spec
  it removes the note, its tag associations and the links it takes part in, in both
  directions.
\<close>

definition delete :: "database \<Rightarrow> string \<Rightarrow> (error + unit) \<times> database" where
  "delete db i =
     (case find_note db i of
        None \<Rightarrow> (Inl (DoesNotExist i), db)
      | Some db_note \<Rightarrow>
          (Inr (),
           db\<lparr>notes_tbl := filter (\<lambda>r. db_id r \<noteq> i) (notes_tbl db),
              note_tags_tbl := filter (\<lambda>p. fst p \<noteq> i) (note_tags_tbl db),
              links_tbl := filter (\<lambda>l. dbl_source_id l \<noteq> i \<and> dbl_target_id l \<noteq> i)
                             (links_tbl db)\<rparr>))"


text \<open>
  The invariants of the schema: the primary key of \<open>notes\<close>, the foreign key
  \<open>links.source_id\<close>, and kind columns that hold values of the enumerations.  (A link whose
  target is gone is not excluded: link validation below is about such rows.)
\<close>

definition wf_db :: "database \<Rightarrow> bool" where
  "wf_db db \<longleftrightarrow>
     distinct (map db_id (notes_tbl db)) \<and>
     (\<forall>l \<in> set (links_tbl db).
        find_note db (dbl_source_id l) \<noteq> None \<and> LinkType_of (dbl_link_type l) \<noteq> None) \<and>
     (\<forall>r \<in> set (notes_tbl db). NoteType_of (db_note_type r) \<noteq> None)"

text \<open>A link of a note as \<open>read\<close> returns it after it was written for note \<open>i\<close> at time \<open>now\<close>.\<close>

definition stored_link :: "datetime \<Rightarrow> string \<Rightarrow> Link \<Rightarrow> Link" where
  "stored_link now i l =
     \<lparr>source_id = i, target_id = target_id l, link_type = link_type l,
      description = description l,
      link_created_at = Some (case link_created_at l of None \<Rightarrow> now | Some d \<Rightarrow> d)\<rparr>"



subsection \<open>Queries\<close>

text \<open>
  \<open>ORDER BY updated_at DESC\<close>.  SQL leaves the order of rows with equal keys open; the
  model sorts stably and reverses.
\<close>

definition order_by_updated_desc :: "DBNote list \<Rightarrow> DBNote list" where
  "order_by_updated_desc rows = rev (sort_key db_updated_at rows)"

text \<open>The comprehension \<open>[self._db_note_to_note(db_note) for db_note in db_notes]\<close>.\<close>

fun convert_all :: "database \<Rightarrow> DBNote list \<Rightarrow> error + Note list" where
  "convert_all db [] = Inr []"
| "convert_all db (r # rs) =
     (case db_note_to_note db r of
        Inl e \<Rightarrow> Inl e
      | Inr n \<Rightarrow> (case convert_all db rs of Inl e \<Rightarrow> Inl e | Inr ns \<Rightarrow> Inr (n # ns)))"

text \<open>
  \<open>list(limit, offset, note_type, tag)\<close>; a filter that is absent or the empty string is not
  applied (\<open>if note_type:\<close>).
\<close>

definition list_notes ::
  "database \<Rightarrow> nat \<Rightarrow> nat \<Rightarrow> string option \<Rightarrow> string option \<Rightarrow> error + Note list" where
  "list_notes db limit offset note_type' tag =
     (let rows1 = (case note_type' of
                     None \<Rightarrow> notes_tbl db
                   | Some t \<Rightarrow> if t = [] then notes_tbl db
                              else filter (\<lambda>r. db_note_type r = t) (notes_tbl db));
          rows2 = (case tag of
                     None \<Rightarrow> rows1
                   | Some g \<Rightarrow> if g = [] then rows1
                              else filter (\<lambda>r. g \<in> set (note_tags db (db_id r))) rows1);
          db_notes = take limit (drop offset (order_by_updated_desc rows2))
      in convert_all db db_notes)"

text \<open>
  SQL \<open>LIKE\<close> as SQLite evaluates it: \<open>%\<close> matches any sequence of characters, \<open>_\<close>
  matches any single character, every other character matches itself; there is no escape
  character.  The first argument is the pattern.
\<close>

fun like :: "string \<Rightarrow> string \<Rightarrow> bool" where
  "like [] [] = True"
| "like [] (c # cs) = False"
| "like (p # ps) [] = (p = CHR ''%'' \<and> like ps [])"
| "like (p # ps) (c # cs) =
     (if p = CHR ''%'' then like ps (c # cs) \<or> like (p # ps) cs
      else (p = CHR ''_'' \<or> p = c) \<and> like ps cs)"

text \<open>\<open>lower()\<close> of SQLite folds the ASCII letters only.\<close>

definition lower_char :: "char \<Rightarrow> char" where
  "lower_char c =
     (if 65 \<le> (of_char c :: nat) \<and> (of_char c :: nat) \<le> 90
      then char_of (of_char c + 32 :: nat) else c)"

text \<open>\<open>column.ilike(pattern)\<close>, which is \<open>lower(column) LIKE lower(pattern)\<close>.\<close>

definition ilike :: "string \<Rightarrow> string \<Rightarrow> bool" where
  "ilike column pattern = like (map lower_char pattern) (map lower_char column)"

text \<open>
  \<open>search(query, limit, search_title, search_content, search_tags)\<close>: the query is put
  between two \<open>%\<close> as it is, and the conditions of the enabled fields are joined by OR.
\<close>

definition search ::
  "database \<Rightarrow> string \<Rightarrow> nat \<Rightarrow> bool \<Rightarrow> bool \<Rightarrow> bool \<Rightarrow> error + Note list" where
  "search db query limit search_title search_content search_tags =
     (if \<not> search_title \<and> \<not> search_content \<and> \<not> search_tags then Inr []
      else
        (let pattern = ''%'' @ query @ ''%'';
             matching = filter (\<lambda>r.
                 (search_title \<and> ilike (db_title r) pattern) \<or>
                 (search_content \<and> ilike (db_content r) pattern) \<or>
                 (search_tags \<and> (\<exists>g \<in> set (note_tags db (db_id r)). ilike g pattern)))
               (notes_tbl db)
         in convert_all db (take limit (order_by_updated_desc matching))))"

section \<open>Link validation\<close>

text \<open>
  \<open>MarkdownImporter.validate_links\<close>: the notes are loaded with \<open>list(limit=10000)\<close>; the
  result maps a note id to the targets of its links that are not among the loaded ids.
\<close>

definition broken_targets :: "string set \<Rightarrow> Note \<Rightarrow> string list" where
  "broken_targets note_ids note =
     map target_id (filter (\<lambda>link. target_id link \<notin> note_ids) (links note))"

definition validate_links :: "database \<Rightarrow> error + (string \<rightharpoonup> string list)" where
  "validate_links db =
     (case list_notes db 10000 0 None None of
        Inl e \<Rightarrow> Inl e
      | Inr all_notes \<Rightarrow>
          (let note_ids = set (map note_id all_notes)
           in Inr (fold (\<lambda>note broken_links.
                      (let broken = broken_targets note_ids note
                       in if broken \<noteq> [] then broken_links(note_id note \<mapsto> broken)
                          else broken_links))
                    all_notes Map.empty)))"


text \<open>
  The dangling targets of a note: the target ids of its stored outgoing links for which
  the store holds no note.
\<close>

definition dangling_targets :: "database \<Rightarrow> string \<Rightarrow> string list" where
  "dangling_targets db s =
     map dbl_target_id
       (filter (\<lambda>l. find_note db (dbl_target_id l) = None) (outgoing_links db s))"


text \<open>The rows that \<open>list(limit=10000)\<close> selects: the 10000 most recently updated ones.\<close>

definition loaded :: "database \<Rightarrow> DBNote list" where
  "loaded db = take 10000 (order_by_updated_desc (notes_tbl db))"


section \<open>Strings and timestamps of the Python library\<close>

text \<open>
  A string is the list of its code points; the model covers the code points below 256.
  \<open>str.strip\<close> removes the white space of \<open>str.isspace\<close>: tab to carriage return, the four
  separators 28 to 31, the space, and (below 256) the code points 133 and 160.
\<close>

definition newline :: char where
  "newline = CHR 0x0A"

definition is_space :: "char \<Rightarrow> bool" where
  "is_space c \<longleftrightarrow> (of_char c :: nat) \<in> {9, 10, 11, 12, 13, 28, 29, 30, 31, 32, 133, 160}"

definition lstrip :: "string \<Rightarrow> string" where
  "lstrip s = dropWhile is_space s"

definition rstrip :: "string \<Rightarrow> string" where
  "rstrip s = rev (dropWhile is_space (rev s))"

definition strip :: "string \<Rightarrow> string" where
  "strip s = rstrip (lstrip s)"

text \<open>\<open>s.split(c)\<close> for a separator of one character: the pieces between the separators.\<close>

fun split_char :: "char \<Rightarrow> string \<Rightarrow> string list" where
  "split_char c [] = [[]]"
| "split_char c (x # xs) =
     (if x = c then [] # split_char c xs
      else (x # hd (split_char c xs)) # tl (split_char c xs))"

text \<open>\<open>sep.join(xs)\<close>\<close>

fun join :: "string \<Rightarrow> string list \<Rightarrow> string" where
  "join sep [] = []"
| "join sep [x] = x"
| "join sep (x # y # ys) = x @ sep @ join sep (y # ys)"

text \<open>\<open>sub in s\<close>\<close>

fun contains :: "string \<Rightarrow> string \<Rightarrow> bool" where
  "contains sub [] = (sub = [])"
| "contains sub (x # xs) = (prefix sub (x # xs) \<or> contains sub xs)"

text \<open>
  \<open>s.split(sep, 1)\<close>: the text before and after the first occurrence of \<open>sep\<close>, or \<open>None\<close>
  when \<open>sep\<close> does not occur (the one-element list \<open>[s]\<close>).
\<close>

fun split_once :: "string \<Rightarrow> string \<Rightarrow> (string \<times> string) option" where
  "split_once sep [] = (if sep = [] then Some ([], []) else None)"
| "split_once sep (x # xs) =
     (if prefix sep (x # xs) then Some ([], drop (length sep) (x # xs))
      else map_option (\<lambda>p. (x # fst p, snd p)) (split_once sep xs))"

text \<open>
  \<open>datetime.isoformat()\<close> of a naive datetime: \<open>YYYY-MM-DDTHH:MM:SS\<close>, followed by
  \<open>.ffffff\<close> when the microsecond is not 0.
\<close>

definition digit_char :: "nat \<Rightarrow> char" where
  "digit_char n = char_of (48 + n)"

fun pad :: "nat \<Rightarrow> nat \<Rightarrow> string" where
  "pad 0 n = []"
| "pad (Suc w) n = pad w (n div 10) @ [digit_char (n mod 10)]"

fun isoformat :: "datetime \<Rightarrow> string" where
  "isoformat (y, mo, d, h, mi, s, us) =
     pad 4 y @ ''-'' @ pad 2 mo @ ''-'' @ pad 2 d @ ''T'' @ pad 2 h @ '':'' @ pad 2 mi @ '':'' @
     pad 2 s @ (if us = 0 then [] else ''.'' @ pad 6 us)"

text \<open>The values a \<open>datetime\<close> object can hold.\<close>

definition is_leap :: "nat \<Rightarrow> bool" where
  "is_leap y \<longleftrightarrow> y mod 4 = 0 \<and> (y mod 100 \<noteq> 0 \<or> y mod 400 = 0)"

definition days_in_month :: "nat \<Rightarrow> nat \<Rightarrow> nat" where
  "days_in_month y mo =
     (if mo = 2 then (if is_leap y then 29 else 28)
      else if mo \<in> {4, 6, 9, 11} then 30 else 31)"

fun valid_datetime :: "datetime \<Rightarrow> bool" where
  "valid_datetime (y, mo, d, h, mi, s, us) \<longleftrightarrow>
     1 \<le> y \<and> y \<le> 9999 \<and> 1 \<le> mo \<and> mo \<le> 12 \<and> 1 \<le> d \<and> d \<le> days_in_month y mo \<and>
     h < 24 \<and> mi < 60 \<and> s < 60 \<and> us < 1000000"

text \<open>
  \<open>datetime.fromisoformat(s)\<close>, for the two shapes that \<open>isoformat\<close> writes; \<open>None\<close> is the
  \<open>ValueError\<close>.  (Python accepts further ISO 8601 shapes, which the exporter never writes;
  the model treats them as unparsable.)
\<close>

definition is_digit :: "char \<Rightarrow> bool" where
  "is_digit c \<longleftrightarrow> 48 \<le> (of_char c :: nat) \<and> (of_char c :: nat) \<le> 57"

definition digits_value :: "string \<Rightarrow> nat" where
  "digits_value s = foldl (\<lambda>a c. 10 * a + (of_char c - 48)) 0 s"

definition read_num :: "nat \<Rightarrow> string \<Rightarrow> (nat \<times> string) option" where
  "read_num w s =
     (if w \<le> length s \<and> list_all is_digit (take w s)
      then Some (digits_value (take w s), drop w s) else None)"

definition read_char :: "char \<Rightarrow> string \<Rightarrow> string option" where
  "read_char c s = (case s of [] \<Rightarrow> None | x # r \<Rightarrow> if x = c then Some r else None)"

definition fromisoformat :: "string \<Rightarrow> datetime option" where
  "fromisoformat s0 = do {
     (y, s1) \<leftarrow> read_num 4 s0;
     s2 \<leftarrow> read_char CHR ''-'' s1;
     (mo, s3) \<leftarrow> read_num 2 s2;
     s4 \<leftarrow> read_char CHR ''-'' s3;
     (d, s5) \<leftarrow> read_num 2 s4;
     s6 \<leftarrow> read_char CHR ''T'' s5;
     (h, s7) \<leftarrow> read_num 2 s6;
     s8 \<leftarrow> read_char CHR '':'' s7;
     (mi, s9) \<leftarrow> read_num 2 s8;
     s10 \<leftarrow> read_char CHR '':'' s9;
     (s, s11) \<leftarrow> read_num 2 s10;
     us \<leftarrow> (if s11 = [] then Some 0
            else do {
              s12 \<leftarrow> read_char CHR ''.'' s11;
              (u, s13) \<leftarrow> read_num 6 s12;
              if s13 = [] then Some u else None
            });
     if valid_datetime (y, mo, d, h, mi, s, us) then Some (y, mo, d, h, mi, s, us) else None
   }"


section \<open>The text format\<close>

text \<open>
  The library \<open>frontmatter\<close> is not part of the repository.  A text file is modelled by
  what the library reads from it: the mapping that the YAML block between the \<open>---\<close>
  lines denotes, and the characters after the closing \<open>---\<close> line.  \<open>dumps\<close> formats
  \<open>"---\n{metadata}\n---\n\n{content}\n"\<close> and strips the result, so the characters after the
  closing line are a newline, the content and a newline, stripped on the right; the YAML
  block is written with sorted keys, so that two texts are equal exactly when the mappings
  and the characters after the block are.  \<open>loads\<close> strips the content on both sides.
\<close>

record Post =
  post_metadata :: "string \<rightharpoonup> yaml"
  post_content :: string

datatype document = Document (header: "string \<rightharpoonup> yaml") (body_text: string)

definition frontmatter_dumps :: "Post \<Rightarrow> document" where
  "frontmatter_dumps post =
     Document (post_metadata post) (rstrip (newline # post_content post @ [newline]))"

definition frontmatter_loads :: "document \<Rightarrow> Post" where
  "frontmatter_loads doc = \<lparr>post_metadata = header doc, post_content = strip (body_text doc)\<rparr>"

text \<open>Truthiness, \<open>str()\<close> and \<open>repr()\<close> of the values that occur.\<close>

fun yaml_truthy :: "yaml \<Rightarrow> bool" where
  "yaml_truthy (YStr s) = (s \<noteq> [])"
| "yaml_truthy (YList xs) = (xs \<noteq> [])"
| "yaml_truthy (YOther b r) = b"

definition py_repr :: "string \<Rightarrow> string" where
  "py_repr s = [CHR 0x27] @ s @ [CHR 0x27]"

fun yaml_str :: "yaml \<Rightarrow> string" where
  "yaml_str (YStr s) = s"
| "yaml_str (YList xs) = ''['' @ join '', '' (map py_repr xs) @ '']''"
| "yaml_str (YOther b r) = r"

definition reserved_keys :: "string set" where
  "reserved_keys = {''id'', ''title'', ''type'', ''tags'', ''created'', ''updated''}"

subsection \<open>Encoding: \<open>MarkdownExporter.export_note_to_markdown\<close>\<close>

definition export_metadata :: "Note \<Rightarrow> string \<rightharpoonup> yaml" where
  "export_metadata note =
     (let md = [''id'' \<mapsto> YStr (note_id note),
                ''title'' \<mapsto> YStr (title note),
                ''type'' \<mapsto> YStr (NoteType_value (note_type note)),
                ''tags'' \<mapsto> YStr (join '', '' (map name (tags note))),
                ''created'' \<mapsto> YStr (isoformat (created_at note)),
                ''updated'' \<mapsto> YStr (isoformat (updated_at note))]
      in (\<lambda>key. case md key of
                   Some v \<Rightarrow> Some v
                 | None \<Rightarrow> if key \<in> {''migrated_from'', ''migration_date''} then None
                           else metadata note key))"

definition link_line :: "Link \<Rightarrow> string" where
  "link_line link =
     ''- '' @ LinkType_value (link_type link) @ '' [['' @ target_id link @ '']]'' @
     (case description link of
        None \<Rightarrow> []
      | Some d \<Rightarrow> if d = [] then [] else '' '' @ d)"

definition content_parts :: "Note \<Rightarrow> string list" where
  "content_parts note =
     strip (content note) #
     (if links note \<noteq> [] \<and> \<not> contains ''## Links'' (content note)
      then (newline # ''## Links'') # map link_line (links note)
      else [])"

definition export_note_to_markdown :: "Note \<Rightarrow> document" where
  "export_note_to_markdown note =
     frontmatter_dumps
       \<lparr>post_metadata = export_metadata note,
        post_content = join [newline] (content_parts note)\<rparr>"

subsection \<open>Decoding: \<open>MarkdownImporter.parse_note_from_markdown\<close>\<close>

text \<open>
  A file: its path as text, its name and stem, its modification times, and its text, or the
  text of the exception that reading and \<open>frontmatter.loads\<close> raise for it.
\<close>

record File =
  file_path :: string
  file_name :: string
  file_stem :: string
  file_text :: "string + document"
  file_ctime :: datetime
  file_mtime :: datetime

record import_stats =
  total_files :: nat
  imported :: nat
  updated :: nat
  skipped :: nat
  failed :: nat
  warnings :: "string list"

definition add_warning :: "string \<Rightarrow> import_stats \<Rightarrow> import_stats" where
  "add_warning w stats = stats\<lparr>warnings := warnings stats @ [w]\<rparr>"

text \<open>One bullet line of the Links section (the body of the \<open>try\<close> in the loop).\<close>

definition parse_link_line :: "datetime \<Rightarrow> string \<Rightarrow> string \<Rightarrow> Link option" where
  "parse_link_line now src line =
     (if contains ''[['' line \<and> contains '']]'' line then
        (case split_once ''[['' line of
           None \<Rightarrow> None
         | Some (part0, part1) \<Rightarrow>
             (let link_type_str0 = strip part0;
                  link_type_str = (if prefix ''- '' link_type_str0
                                   then strip (drop 2 link_type_str0) else link_type_str0);
                  id_and_desc = split_once '']]'' part1;
                  tgt = (case id_and_desc of None \<Rightarrow> strip part1 | Some (t, d) \<Rightarrow> strip t);
                  descr = (case id_and_desc of None \<Rightarrow> None | Some (t, d) \<Rightarrow> Some (strip d));
                  kind = (case LinkType_of link_type_str of None \<Rightarrow> REFERENCE | Some k \<Rightarrow> k)
              in Some \<lparr>source_id = src, target_id = tgt, link_type = kind,
                        description = descr, link_created_at = Some now\<rparr>))
      else None)"

fun extract_links_loop :: "datetime \<Rightarrow> string \<Rightarrow> bool \<Rightarrow> string list \<Rightarrow> Link list" where
  "extract_links_loop now src links_section [] = []"
| "extract_links_loop now src links_section (raw # rest) =
     (let line = strip raw
      in if prefix ''## Links'' line then extract_links_loop now src True rest
         else if links_section \<and> prefix ''## '' line then extract_links_loop now src False rest
         else if links_section \<and> prefix ''- '' line then
           (case parse_link_line now src line of
              None \<Rightarrow> extract_links_loop now src links_section rest
            | Some link \<Rightarrow> link # extract_links_loop now src links_section rest)
         else extract_links_loop now src links_section rest)"

definition extract_links_from_content :: "datetime \<Rightarrow> string \<Rightarrow> string \<Rightarrow> Link list" where
  "extract_links_from_content now src text =
     extract_links_loop now src False (split_char newline text)"

definition tag_names_of :: "yaml option \<Rightarrow> string list" where
  "tag_names_of tags_data =
     (case tags_data of
        None \<Rightarrow> []
      | Some (YStr s) \<Rightarrow> filter (\<lambda>t. t \<noteq> []) (map strip (split_char CHR '','' s))
      | Some (YList xs) \<Rightarrow> filter (\<lambda>t. t \<noteq> []) (map strip xs)
      | Some (YOther b r) \<Rightarrow> [])"

text \<open>
  \<open>datetime.fromisoformat(x) if x else default\<close>; \<open>Inl\<close> is the text of the exception
  (a \<open>ValueError\<close> for a string that does not parse, a \<open>TypeError\<close> for another value).
\<close>

definition parse_timestamp :: "yaml option \<Rightarrow> datetime \<Rightarrow> string + datetime" where
  "parse_timestamp x dflt =
     (case x of
        None \<Rightarrow> Inr dflt
      | Some v \<Rightarrow>
          if \<not> yaml_truthy v then Inr dflt
          else (case v of
                  YStr s \<Rightarrow> (case fromisoformat s of
                               None \<Rightarrow> Inl (''Invalid isoformat string: '' @ py_repr s)
                             | Some d \<Rightarrow> Inr d)
                | YList xs \<Rightarrow> Inl ''fromisoformat: argument must be str''
                | YOther b r \<Rightarrow> Inl ''fromisoformat: argument must be str''))"

definition parse_note_type :: "yaml option \<Rightarrow> NoteType option" where
  "parse_note_type x =
     (case x of
        None \<Rightarrow> Some PERMANENT
      | Some (YStr s) \<Rightarrow> NoteType_of s
      | Some (YList xs) \<Rightarrow> None
      | Some (YOther b r) \<Rightarrow> None)"

text \<open>The warning \<open>f"Invalid note type '{note_type_str}' in {file_path}..."\<close>.\<close>

definition invalid_type_warning :: "yaml option \<Rightarrow> string \<Rightarrow> string \<Rightarrow> string" where
  "invalid_type_warning x path ending =
     ''Invalid note type '' @ [CHR 0x27] @ (case x of None \<Rightarrow> [] | Some v \<Rightarrow> yaml_str v) @
     [CHR 0x27] @ '' in '' @ path @ ending"

definition extra_metadata_of :: "(string \<rightharpoonup> yaml) \<Rightarrow> (string \<rightharpoonup> yaml)" where
  "extra_metadata_of md = (\<lambda>k. if k \<in> reserved_keys then None else md k)"

text \<open>
  Modelled from the spec: \<open>Note\<close> is declared in \<open>models/schema.py\<close>, which is not part of
  the sources; its id and title are strings, so \<open>Note(...)\<close> raises for a header whose id or
  title is another value.  The text of that exception is not modelled.
\<close>

definition build_note ::
  "yaml \<Rightarrow> yaml \<Rightarrow> string \<Rightarrow> NoteType \<Rightarrow> Tag list \<Rightarrow> Link list \<Rightarrow> datetime \<Rightarrow> datetime \<Rightarrow>
   (string \<rightharpoonup> yaml) \<Rightarrow> string + Note" where
  "build_note i t c k ts ls cr up md =
     (case (i, t) of
        (YStr i', YStr t') \<Rightarrow>
          Inr \<lparr>note_id = i', title = t', content = c, note_type = k, tags = ts, links = ls,
               created_at = cr, updated_at = up, metadata = md\<rparr>
      | _ \<Rightarrow> Inl ''validation error for Note'')"

definition parse_note_from_markdown ::
  "datetime \<Rightarrow> File \<Rightarrow> import_stats \<Rightarrow> Note option \<times> import_stats" where
  "parse_note_from_markdown now file stats =
     (case file_text file of
        Inl e \<Rightarrow>
          (None, add_warning (''Failed to parse '' @ file_path file @ '': '' @ e) stats)
      | Inr doc \<Rightarrow>
          (let post = frontmatter_loads doc; md = post_metadata post
           in case (case md ''id'' of None \<Rightarrow> None
                    | Some v \<Rightarrow> if yaml_truthy v then Some v else None) of
                None \<Rightarrow>
                  (None, add_warning (''No ID in '' @ file_path file @ '', skipping'') stats)
              | Some note_id' \<Rightarrow>
                  (let title' = (case md ''title'' of
                                   None \<Rightarrow> YStr (''Untitled Note '' @ yaml_str note_id')
                                 | Some t \<Rightarrow> t);
                       stats1 = (case parse_note_type (md ''type'') of
                                   Some k \<Rightarrow> stats
                                 | None \<Rightarrow> add_warning
                                     (invalid_type_warning (md ''type'') (file_path file)
                                        '', using PERMANENT'') stats);
                       note_type' = (case parse_note_type (md ''type'') of
                                       Some k \<Rightarrow> k | None \<Rightarrow> PERMANENT);
                       tags' = map Tag (tag_names_of (md ''tags''));
                       links' = (case note_id' of
                                   YStr i \<Rightarrow> extract_links_from_content now i (post_content post)
                                 | YList xs \<Rightarrow> []
                                 | YOther b r \<Rightarrow> [])
                   in case parse_timestamp (md ''created'') now of
                        Inl e \<Rightarrow> (None, add_warning
                                    (''Failed to parse '' @ file_path file @ '': '' @ e) stats1)
                      | Inr created_at' \<Rightarrow>
                          (case parse_timestamp (md ''updated'') created_at' of
                             Inl e \<Rightarrow> (None, add_warning
                                    (''Failed to parse '' @ file_path file @ '': '' @ e) stats1)
                           | Inr updated_at' \<Rightarrow>
                               (case build_note note_id' title' (post_content post) note_type'
                                       tags' links' created_at' updated_at'
                                       (extra_metadata_of md) of
                                  Inl e \<Rightarrow> (None, add_warning
                                    (''Failed to parse '' @ file_path file @ '': '' @ e) stats1)
                                | Inr note \<Rightarrow> (Some note, stats1))))))"


section \<open>Import\<close>

text \<open>\<open>str(e)\<close> of a repository error.  (The text of an enum lookup failure is not modelled.)\<close>

fun error_str :: "error \<Rightarrow> string" where
  "error_str (AlreadyExists i) = ''Note with ID '' @ i @ '' already exists''"
| "error_str (NotFound i) = ''Note with ID '' @ i @ '' not found''"
| "error_str (DoesNotExist i) = ''Note with ID '' @ i @ '' does not exist''"
| "error_str (EnumValueError k) = ''not a valid '' @ k"

text \<open>
  \<open>MarkdownImporter.import_single_file\<close>, on the store and the counters of the importer.
  The clock reading \<open>now\<close> stands for every \<open>datetime.now()\<close> during the call.
\<close>

definition import_failed :: "File \<Rightarrow> error \<Rightarrow> import_stats \<Rightarrow> import_stats" where
  "import_failed file e stats =
     add_warning (''Failed to import '' @ file_path file @ '': '' @ error_str e)
       (stats\<lparr>failed := failed stats + 1\<rparr>)"

definition import_single_file ::
  "datetime \<Rightarrow> File \<Rightarrow> bool \<Rightarrow> database \<times> import_stats \<Rightarrow> bool \<times> database \<times> import_stats"
  where
  "import_single_file now file update_existing st =
     (case parse_note_from_markdown now file (snd st) of
        (None, stats1) \<Rightarrow> (False, fst st, stats1\<lparr>failed := failed stats1 + 1\<rparr>)
      | (Some note, stats1) \<Rightarrow>
          (case read (fst st) (note_id note) of
             Inl e \<Rightarrow> (False, fst st, import_failed file e stats1)
           | Inr (Some existing) \<Rightarrow>
               if update_existing then
                 (case update now (fst st) note of
                    (Inl e, db') \<Rightarrow> (False, db', import_failed file e stats1)
                  | (Inr n, db') \<Rightarrow> (True, db', stats1\<lparr>updated := updated stats1 + 1\<rparr>))
               else (True, fst st, stats1\<lparr>skipped := skipped stats1 + 1\<rparr>)
           | Inr None \<Rightarrow>
               (case create now (fst st) note of
                  (Inl e, db') \<Rightarrow> (False, db', import_failed file e stats1)
                | (Inr n, db') \<Rightarrow> (True, db', stats1\<lparr>imported := imported stats1 + 1\<rparr>))))"

text \<open>
  A directory: its path and, when it exists, its entries in the order in which \<open>glob\<close>
  yields them.  \<open>glob("*.md")\<close> keeps the names that end in \<open>.md\<close>; names that start with
  an underscore are excluded.
\<close>

record Directory =
  dir_path :: string
  dir_entries :: "File list option"

definition md_files :: "File list \<Rightarrow> File list" where
  "md_files entries =
     filter (\<lambda>f. \<not> prefix ''_'' (file_name f))
       (filter (\<lambda>f. suffix ''.md'' (file_name f)) entries)"

text \<open>
  The loop over the files of \<open>import_directory\<close> (the batches are consecutive slices, so
  the files are imported in their order); the \<open>k\<close>-th file is imported at the clock reading
  \<open>clock k\<close>.
\<close>

fun import_loop ::
  "(nat \<Rightarrow> datetime) \<Rightarrow> nat \<Rightarrow> bool \<Rightarrow> File list \<Rightarrow> database \<times> import_stats \<Rightarrow>
   database \<times> import_stats" where
  "import_loop clock k update_existing [] st = st"
| "import_loop clock k update_existing (f # fs) st =
     import_loop clock (Suc k) update_existing fs
       (snd (import_single_file (clock k) f update_existing st))"

text \<open>
  \<open>import_directory\<close>: the error (a \<open>ValueError\<close>, for a directory that does not exist or
  for the batch size 0 of \<open>range\<close>), if any, and the store and the counters afterwards.
\<close>

definition import_directory ::
  "(nat \<Rightarrow> datetime) \<Rightarrow> Directory \<Rightarrow> bool \<Rightarrow> nat \<Rightarrow> database \<times> import_stats \<Rightarrow>
   string option \<times> database \<times> import_stats" where
  "import_directory clock import_dir update_existing batch_size st =
     (case dir_entries import_dir of
        None \<Rightarrow> (Some (''Import directory '' @ dir_path import_dir @ '' does not exist''), st)
      | Some entries \<Rightarrow>
          (let files = md_files entries;
               st1 = (fst st, (snd st)\<lparr>total_files := length files\<rparr>)
           in if batch_size = 0 then (Some ''range() arg 3 must not be zero'', st1)
              else (None, import_loop clock 0 update_existing files st1)))"

section \<open>Merge\<close>

text \<open>
  The dictionary \<open>all_notes\<close> of \<open>merge_imports\<close>, in insertion order: for each id the
  parsed versions with their file paths, in the order in which they were parsed.
\<close>

type_synonym versions = "(Note \<times> string) list"

fun dict_append :: "string \<Rightarrow> Note \<times> string \<Rightarrow> (string \<times> versions) list \<Rightarrow> (string \<times> versions) list"
  where
  "dict_append k v [] = [(k, [v])]"
| "dict_append k v (e # es) =
     (if fst e = k then (k, snd e @ [v]) # es else e # dict_append k v es)"

text \<open>
  The state of the collecting loops: the dictionary, the number of files, the number of
  files parsed so far (the index of the next clock reading), and the importer's counters.
\<close>

record collect_state =
  all_notes :: "(string \<times> versions) list"
  cs_total_files :: nat
  cs_parsed :: nat
  cs_stats :: import_stats

fun collect_files :: "(nat \<Rightarrow> datetime) \<Rightarrow> File list \<Rightarrow> collect_state \<Rightarrow> collect_state" where
  "collect_files clock [] cs = cs"
| "collect_files clock (f # fs) cs =
     (case parse_note_from_markdown (clock (cs_parsed cs)) f (cs_stats cs) of
        (None, stats1) \<Rightarrow>
          collect_files clock fs (cs\<lparr>cs_parsed := Suc (cs_parsed cs), cs_stats := stats1\<rparr>)
      | (Some note, stats1) \<Rightarrow>
          collect_files clock fs
            (cs\<lparr>all_notes := dict_append (note_id note) (note, file_path f) (all_notes cs),
                cs_parsed := Suc (cs_parsed cs), cs_stats := stats1\<rparr>))"

fun collect_dirs :: "(nat \<Rightarrow> datetime) \<Rightarrow> Directory list \<Rightarrow> collect_state \<Rightarrow> collect_state" where
  "collect_dirs clock [] cs = cs"
| "collect_dirs clock (d # ds) cs =
     (case dir_entries d of
        None \<Rightarrow> collect_dirs clock ds cs
      | Some entries \<Rightarrow>
          collect_dirs clock ds
            (collect_files clock (md_files entries)
               (cs\<lparr>cs_total_files := cs_total_files cs + length (md_files entries)\<rparr>)))"

text \<open>
  \<open>max(versions, key=...)\<close> and \<open>min(versions, key=...)\<close> of Python: the candidate replaces
  the best one so far only when its key is strictly greater (smaller).
\<close>

fun py_max :: "('a \<Rightarrow> 'k::linorder) \<Rightarrow> 'a \<Rightarrow> 'a list \<Rightarrow> 'a" where
  "py_max key best [] = best"
| "py_max key best (x # xs) = py_max key (if key best < key x then x else best) xs"

fun py_min :: "('a \<Rightarrow> 'k::linorder) \<Rightarrow> 'a \<Rightarrow> 'a list \<Rightarrow> 'a" where
  "py_min key best [] = best"
| "py_min key best (x # xs) = py_min key (if key x < key best then x else best) xs"

text \<open>
  The version that the strategy selects among the versions of one id.  (The dictionary
  never holds an empty list of versions.)
\<close>

fun select_version :: "string \<Rightarrow> versions \<Rightarrow> (Note \<times> string) option" where
  "select_version strategy [] = None"
| "select_version strategy [v] = Some v"
| "select_version strategy (v # w # ws) =
     Some (if strategy = ''newest'' then py_max (\<lambda>x. updated_at (fst x)) v (w # ws)
           else if strategy = ''oldest'' then py_min (\<lambda>x. updated_at (fst x)) v (w # ws)
           else if strategy = ''largest'' then py_max (\<lambda>x. length (content (fst x))) v (w # ws)
           else v)"

definition notes_to_import :: "string \<Rightarrow> (string \<times> versions) list \<Rightarrow> Note list" where
  "notes_to_import strategy dict =
     concat (map (\<lambda>e. case select_version strategy (snd e) of
                         None \<Rightarrow> [] | Some selected \<Rightarrow> [fst selected]) dict)"

definition count_conflicts :: "(string \<times> versions) list \<Rightarrow> nat" where
  "count_conflicts dict = length (filter (\<lambda>e. length (snd e) \<noteq> 1) dict)"

text \<open>The loop that writes the selected notes: create if absent, else update.\<close>

fun import_merged ::
  "(nat \<Rightarrow> datetime) \<Rightarrow> nat \<Rightarrow> Note list \<Rightarrow> database \<times> nat \<times> nat \<Rightarrow> database \<times> nat \<times> nat"
  where
  "import_merged clock k [] st = st"
| "import_merged clock k (note # notes) (db, n_imported, n_failed) =
     import_merged clock (Suc k) notes
       (case read db (note_id note) of
          Inl e \<Rightarrow> (db, n_imported, Suc n_failed)
        | Inr existing \<Rightarrow>
            (case (if existing \<noteq> None then update (clock k) db note
                   else create (clock k) db note) of
               (Inl e, db') \<Rightarrow> (db', n_imported, Suc n_failed)
             | (Inr n, db') \<Rightarrow> (db', Suc n_imported, n_failed)))"

record merge_result =
  mr_total_files :: nat
  mr_unique_notes :: nat
  mr_conflicts :: nat
  mr_imported :: nat
  mr_failed :: nat

definition merge_imports ::
  "(nat \<Rightarrow> datetime) \<Rightarrow> Directory list \<Rightarrow> string \<Rightarrow> database \<times> import_stats \<Rightarrow>
   merge_result \<times> database \<times> import_stats" where
  "merge_imports clock import_dirs strategy st =
     (let cs = collect_dirs clock import_dirs
                 \<lparr>all_notes = [], cs_total_files = 0, cs_parsed = 0, cs_stats = snd st\<rparr>;
          selected = notes_to_import strategy (all_notes cs);
          res = import_merged clock (cs_parsed cs) selected (fst st, 0, 0)
      in (\<lparr>mr_total_files = cs_total_files cs, mr_unique_notes = length (all_notes cs),
            mr_conflicts = count_conflicts (all_notes cs),
            mr_imported = fst (snd res), mr_failed = snd (snd res)\<rparr>,
          fst res, cs_stats cs))"

text \<open>
  The files that \<open>merge_imports\<close> reads from a directory, and the notes that a list of
  files yields in the order in which the files are read, each with the path of its file;
  the \<open>j\<close>-th file is parsed at the clock reading \<open>clock j\<close>.
\<close>

definition dir_md_files :: "Directory \<Rightarrow> File list" where
  "dir_md_files d = (case dir_entries d of None \<Rightarrow> [] | Some entries \<Rightarrow> md_files entries)"

fun encountered ::
  "(nat \<Rightarrow> datetime) \<Rightarrow> nat \<Rightarrow> File list \<Rightarrow> import_stats \<Rightarrow> versions" where
  "encountered clock j [] stats = []"
| "encountered clock j (f # fs) stats =
     (case parse_note_from_markdown (clock j) f stats of
        (None, stats1) \<Rightarrow> encountered clock (Suc j) fs stats1
      | (Some n, stats1) \<Rightarrow> (n, file_path f) # encountered clock (Suc j) fs stats1)"

section \<open>Migration: \<open>MarkdownToSQLiteMigrator.parse_note_from_markdown\<close>\<close>




section \<open>Notes that the text format can carry\<close>

text \<open>
  The file that \<open>export_single_note\<close> writes for a note into a directory, as it is read
  back later (\<open>t\<close> is the time of writing).
\<close>

definition exported_file :: "string \<Rightarrow> datetime \<Rightarrow> Note \<Rightarrow> File" where
  "exported_file export_dir t note =
     \<lparr>file_path = export_dir @ ''/'' @ note_id note @ ''.md'',
      file_name = note_id note @ ''.md'', file_stem = note_id note,
      file_text = Inr (export_note_to_markdown note), file_ctime = t, file_mtime = t\<rparr>"

text \<open>
  What the text of a link line shows of a link: its kind, its target and the text of its
  description (no description and the empty description are written alike).
\<close>

definition description_text :: "Link \<Rightarrow> string" where
  "description_text l = (case description l of None \<Rightarrow> [] | Some d \<Rightarrow> d)"

definition link_view :: "Link \<Rightarrow> LinkType \<times> string \<times> string" where
  "link_view l = (link_type l, target_id l, description_text l)"

text \<open>
  The notes whose header survives the round trip: the id is not empty (an empty id is
  read as a missing one), the timestamps are values of \<open>datetime\<close>, and a tag name is not
  empty, has no comma and no white space at its ends (the tags are written as one
  comma-separated line).
\<close>

definition encodable_tag :: "Tag \<Rightarrow> bool" where
  "encodable_tag t \<longleftrightarrow> name t \<noteq> [] \<and> CHR '','' \<notin> set (name t) \<and> strip (name t) = name t"

definition encodable_header :: "Note \<Rightarrow> bool" where
  "encodable_header n \<longleftrightarrow>
     note_id n \<noteq> [] \<and> valid_datetime (created_at n) \<and> valid_datetime (updated_at n) \<and>
     list_all encodable_tag (tags n)"


text \<open>The link that is read back from the line of a link, for a note id and a clock reading.\<close>

definition decoded_link :: "datetime \<Rightarrow> string \<Rightarrow> Link \<Rightarrow> Link" where
  "decoded_link now src l =
     \<lparr>source_id = src, target_id = target_id l, link_type = link_type l,
      description = Some (description_text l), link_created_at = Some now\<rparr>"

section \<open>Example data\<close>

definition ex_time :: datetime where
  "ex_time = (2024, 1, 1, 0, 0, 0, 0)"

definition ex_link :: "string \<Rightarrow> string \<Rightarrow> Link" where
  "ex_link s t = \<lparr>source_id = s, target_id = t, link_type = REFERENCE,
     description = None, link_created_at = None\<rparr>"

definition ex_note :: "string \<Rightarrow> Link list \<Rightarrow> Note" where
  "ex_note i ls = \<lparr>note_id = i, title = ''Title'', content = ''Content'',
     note_type = PERMANENT, tags = [], links = ls, created_at = ex_time,
     updated_at = ex_time, metadata = Map.empty\<rparr>"

definition empty_db :: database where
  "empty_db = \<lparr>notes_tbl = [], tags_tbl = [], note_tags_tbl = [], links_tbl = []\<rparr>"

text \<open>A store that holds the single note \<open>n1\<close>.\<close>

definition ex_db :: database where
  "ex_db = snd (create ex_time empty_db (ex_note ''n1'' []))"


text \<open>
  A store of \<open>n + 1\<close> notes, numbered in the order of their last update, in which the
  newest note links to the oldest one.  (It is what \<open>create\<close> builds from the empty store
  when the notes are created in that order.)
\<close>

definition big_id :: "nat \<Rightarrow> string" where
  "big_id i = replicate (Suc i) CHR ''n''"

definition big_row :: "nat \<Rightarrow> DBNote" where
  "big_row i = \<lparr>db_id = big_id i, db_title = ''Title'', db_content = ''Content'',
     db_note_type = ''permanent'', db_created_at = ex_time,
     db_updated_at = (2024, 1, 1, 0, 0, 0, i), db_extra_metadata = Map.empty\<rparr>"

definition big_store :: "nat \<Rightarrow> database" where
  "big_store n =
     \<lparr>notes_tbl = map big_row [0..<Suc n], tags_tbl = [], note_tags_tbl = [],
      links_tbl = [\<lparr>dbl_source_id = big_id n, dbl_target_id = big_id 0,
                    dbl_link_type = ''reference'', dbl_description = None,
                    dbl_created_at = ex_time\<rparr>]\<rparr>"


text \<open>
  The notes whose creation builds that store: \<open>created_notes n\<close> is the store after
  \<open>create\<close> has been called for the notes \<open>0, ..., n - 1\<close>, none of which has a link.
\<close>

definition big_note :: "nat \<Rightarrow> Link list \<Rightarrow> Note" where
  "big_note i ls = (ex_note (big_id i) ls)\<lparr>updated_at := (2024, 1, 1, 0, 0, 0, i)\<rparr>"

definition created_notes :: "nat \<Rightarrow> database" where
  "created_notes n = fold (\<lambda>i db. snd (create ex_time db (big_note i []))) [0..<n] empty_db"







text \<open>
  Two later clock readings, and a note whose last update is the earlier one of them.
\<close>

definition ex_mid :: datetime where
  "ex_mid = (2024, 3, 1, 10, 30, 0, 0)"

definition ex_later :: datetime where
  "ex_later = (2025, 6, 1, 12, 0, 0, 0)"

definition ex_note_edited :: "string \<Rightarrow> Note" where
  "ex_note_edited i = (ex_note i [])\<lparr>updated_at := ex_mid\<rparr>"

text \<open>
  Two files as the importer's tests write them: one whose header has no id, and a
  well-formed one.  \<open>ex_dir\<close> holds both, and a run-metadata file.
\<close>

definition ex_stats :: import_stats where
  "ex_stats = \<lparr>total_files = 0, imported = 0, updated = 0, skipped = 0, failed = 0,
     warnings = []\<rparr>"

definition ex_file_no_id :: File where
  "ex_file_no_id =
     \<lparr>file_path = ''dir/note_without_id.md'', file_name = ''note_without_id.md'',
      file_stem = ''note_without_id'',
      file_text = Inr (Document
        [''title'' \<mapsto> YStr ''Note Without ID'', ''type'' \<mapsto> YStr ''fleeting'',
         ''tags'' \<mapsto> YStr ''fleeting'']
        (newline # ''Content without ID.'')),
      file_ctime = ex_time, file_mtime = ex_time\<rparr>"

definition ex_file_n2 :: File where
  "ex_file_n2 =
     \<lparr>file_path = ''dir/n2.md'', file_name = ''n2.md'', file_stem = ''n2'',
      file_text = Inr (Document
        [''id'' \<mapsto> YStr ''n2'', ''title'' \<mapsto> YStr ''Second Note'',
         ''type'' \<mapsto> YStr ''literature'', ''tags'' \<mapsto> YStr ''test, literature'',
         ''created'' \<mapsto> YStr ''2024-01-02T00:00:00'',
         ''updated'' \<mapsto> YStr ''2024-01-02T00:00:00'']
        (newline # ''This is the second note.'')),
      file_ctime = ex_time, file_mtime = ex_time\<rparr>"

definition ex_file_meta :: File where
  "ex_file_meta =
     \<lparr>file_path = ''dir/_export_summary.md'', file_name = ''_export_summary.md'',
      file_stem = ''_export_summary'', file_text = Inl ''not a note'',
      file_ctime = ex_time, file_mtime = ex_time\<rparr>"

definition ex_dir :: Directory where
  "ex_dir = \<lparr>dir_path = ''dir'',
     dir_entries = Some [ex_file_no_id, ex_file_meta, ex_file_n2]\<rparr>"

text \<open>
  Two directories that hold one file each, written by the exporter for two versions of the
  note \<open>n1\<close>, and the state of \<open>merge_imports\<close> after it has read them.
\<close>

definition ex_dir1 :: Directory where
  "ex_dir1 = \<lparr>dir_path = ''import1'',
     dir_entries = Some [exported_file ''import1'' ex_time (ex_note ''n1'' [])]\<rparr>"

definition ex_dir2 :: Directory where
  "ex_dir2 = \<lparr>dir_path = ''import2'',
     dir_entries = Some [exported_file ''import2'' ex_time (ex_note_edited ''n1'')]\<rparr>"

definition ex_collected :: collect_state where
  "ex_collected = collect_dirs (\<lambda>k. ex_later) [ex_dir1, ex_dir2]
     \<lparr>all_notes = [], cs_total_files = 0, cs_parsed = 0, cs_stats = ex_stats\<rparr>"



section \<open>Properties of the store\<close>

lemma find_note_None_iff: "find_note db i = None \<longleftrightarrow> i \<notin> db_id ` set (notes_tbl db)"
  by (auto simp: find_note_def find_None_iff)

lemma find_note_Some_id: "find_note db i = Some r \<Longrightarrow> db_id r = i"
  by (auto simp: find_note_def find_Some_iff)

lemma add_tags_notes [simp]: "notes_tbl (add_tags i ts db) = notes_tbl db"
  by (induction ts arbitrary: db) auto

lemma add_tags_links [simp]: "links_tbl (add_tags i ts db) = links_tbl db"
  by (induction ts arbitrary: db) auto

lemma find_note_add_tags [simp]: "find_note (add_tags i ts db) k = find_note db k"
  by (simp add: find_note_def)

lemma add_links_notes [simp]: "notes_tbl (add_links now i ls db) = notes_tbl db"
  by (induction ls arbitrary: db) (auto split: option.splits)

lemma find_note_add_links [simp]: "find_note (add_links now i ls db) k = find_note db k"
  by (simp add: find_note_def)

lemma add_links_note_tags [simp]:
  "note_tags_tbl (add_links now i ls db) = note_tags_tbl db"
  by (induction ls arbitrary: db) (auto split: option.splits)

lemma add_links_tbl:
  "links_tbl (add_links now i ls db) =
     links_tbl db @ map (to_db_link now i) (filter (\<lambda>l. find_note db (target_id l) \<noteq> None) ls)"
proof (induction ls arbitrary: db)
  case Nil
  then show ?case by simp
next
  case (Cons l ls)
  show ?case
  proof (cases "find_note db (target_id l)")
    case None
    then show ?thesis using Cons.IH [of db] by simp
  next
    case (Some r)
    have "find_note (db\<lparr>links_tbl := links_tbl db @ [to_db_link now i l]\<rparr>) = find_note db"
      by (intro ext) (simp add: find_note_def)
    then show ?thesis
      using Some Cons.IH [of "db\<lparr>links_tbl := links_tbl db @ [to_db_link now i l]\<rparr>"]
      by simp
  qed
qed


lemma LinkType_of_value [simp]: "LinkType_of (LinkType_value k) = Some k"
  by (cases k) (simp_all add: LinkType_of_def)

lemma NoteType_of_value [simp]: "NoteType_of (NoteType_value k) = Some k"
  by (cases k) (simp_all add: NoteType_of_def)

lemma db_link_to_link_stored [simp]:
  "db_link_to_link (to_db_link now i l) = Some (stored_link now i l)"
  by (simp add: db_link_to_link_def to_db_link_def stored_link_def)

lemma those_map_Some: "those (map (\<lambda>x. Some (f x)) xs) = Some (map f xs)"
  by (induction xs) auto

lemma those_stored [simp]:
  "those (map (db_link_to_link \<circ> to_db_link now i) ls) = Some (map (stored_link now i) ls)"
  by (simp add: o_def those_map_Some)

lemma find_append_case:
  "find P (xs @ ys) = (case find P xs of Some x \<Rightarrow> Some x | None \<Rightarrow> find P ys)"
  by (induction xs) auto

lemma find_note_append_row:
  "find_note (db\<lparr>notes_tbl := notes_tbl db @ [r]\<rparr>) k =
     (case find_note db k of Some x \<Rightarrow> Some x | None \<Rightarrow> if db_id r = k then Some r else None)"
  by (simp add: find_note_def find_append_case split: option.splits)

lemma find_filter_neq: "find (\<lambda>r. f r = i) (filter (\<lambda>r. f r \<noteq> i) xs) = None"
  by (induction xs) auto

lemma find_note_delete_same: "find_note (snd (delete db i)) i = None"
  by (auto simp: delete_def find_note_def find_filter_neq split: option.splits)

lemma delete_fst: "fst (delete db i) = (case find_note db i of None \<Rightarrow> Inl (DoesNotExist i) | Some r \<Rightarrow> Inr ())"
  by (simp add: delete_def split: option.splits)

lemma create_exists:
  "find_note db (note_id item) = Some r \<Longrightarrow> create now db item = (Inl (AlreadyExists (note_id item)), db)"
  by (simp add: create_def)

lemma db_note_to_note_not_AlreadyExists: "db_note_to_note db r \<noteq> Inl (AlreadyExists m)"
  by (simp add: db_note_to_note_def split: option.splits)

lemma create_fresh_not_AlreadyExists:
  "find_note db (note_id item) = None \<Longrightarrow> fst (create now db item) \<noteq> Inl (AlreadyExists m)"
  by (simp add: create_def Let_def db_note_to_note_not_AlreadyExists)

text \<open>
  Claim C5.  \<open>create\<close> raises the already-exists error exactly when a note with the id of
  the supplied note is in the store, and then the store is unchanged.  \<open>delete\<close> raises
  (its only error, the does-not-exist error) exactly when no note has the id.  After a
  successful \<open>delete\<close> of an id, \<open>read\<close> of that id returns absent without raising, and a
  second \<open>delete\<close> raises the does-not-exist error.
\<close>

theorem C5_create_delete_errors:
  "((\<exists>m. fst (create now db item) = Inl (AlreadyExists m)) \<longleftrightarrow> find_note db (note_id item) \<noteq> None) \<and>
   (find_note db (note_id item) \<noteq> None \<longrightarrow>
      create now db item = (Inl (AlreadyExists (note_id item)), db)) \<and>
   ((\<exists>e. fst (delete db i) = Inl e) \<longleftrightarrow> find_note db i = None) \<and>
   (find_note db i = None \<longrightarrow> delete db i = (Inl (DoesNotExist i), db)) \<and>
   (find_note db j \<noteq> None \<longrightarrow>
      fst (delete db j) = Inr () \<and>
      read (snd (delete db j)) j = Inr None \<and>
      delete (snd (delete db j)) j = (Inl (DoesNotExist j), snd (delete db j)))"
proof (intro conjI impI)
  show "(\<exists>m. fst (create now db item) = Inl (AlreadyExists m)) \<longleftrightarrow> find_note db (note_id item) \<noteq> None"
  proof (cases "find_note db (note_id item)")
    case None
    then show ?thesis using create_fresh_not_AlreadyExists [OF None] by simp
  next
    case (Some r)
    then show ?thesis using create_exists [OF Some] by auto
  qed
  show "create now db item = (Inl (AlreadyExists (note_id item)), db)"
    if "find_note db (note_id item) \<noteq> None"
    using that by (auto simp: create_def)
  show "(\<exists>e. fst (delete db i) = Inl e) \<longleftrightarrow> find_note db i = None"
    by (auto simp: delete_fst split: option.splits)
  show "delete db i = (Inl (DoesNotExist i), db)" if "find_note db i = None"
    using that by (simp add: delete_def)
  show "fst (delete db j) = Inr ()" if "find_note db j \<noteq> None"
    using that by (auto simp: delete_fst)
  show "read (snd (delete db j)) j = Inr None" if "find_note db j \<noteq> None"
    by (simp add: read_def find_note_delete_same)
  show "delete (snd (delete db j)) j = (Inl (DoesNotExist j), snd (delete db j))"
    if "find_note db j \<noteq> None"
    using find_note_delete_same [of db j] by (simp add: delete_def [of "snd (delete db j)"])
qed

lemma find_map_replace_same:
  "f r' = k \<Longrightarrow>
   find (\<lambda>r. f r = k) (map (\<lambda>r. if f r = k then r' else r) xs) =
     map_option (\<lambda>_. r') (find (\<lambda>r. f r = k) xs)"
  by (induction xs) auto

lemma find_map_replace_other:
  "f r' = k \<Longrightarrow> j \<noteq> k \<Longrightarrow>
   find (\<lambda>r. f r = j) (map (\<lambda>r. if f r = k then r' else r) xs) = find (\<lambda>r. f r = j) xs"
  by (induction xs) auto

lemma update_found:
  assumes "find_note db (note_id item) = Some r"
  shows "find_note (snd (update now db item)) k =
           (if k = note_id item then Some (updated_row now item r) else find_note db k)"
proof -
  have id: "db_id (updated_row now item r) = note_id item"
    using find_note_Some_id [OF assms] by (simp add: updated_row_def)
  show ?thesis
    using assms id find_map_replace_same [of db_id "updated_row now item r" "note_id item" "notes_tbl db"]
      find_map_replace_other [of db_id "updated_row now item r" "note_id item" k "notes_tbl db"]
    by (auto simp: update_def Let_def find_note_def)
qed

lemma update_result:
  assumes "find_note db (note_id item) = Some r"
  shows "fst (update now db item) = db_note_to_note (snd (update now db item)) (updated_row now item r)"
  using assms by (simp add: update_def Let_def)

lemma create_found:
  assumes "find_note db (note_id item) = None"
  shows "find_note (snd (create now db item)) k =
           (if k = note_id item then Some (created_row item) else find_note db k)"
  using assms by (auto simp: create_def Let_def find_note_append_row created_row_def split: option.splits)

lemma create_result:
  assumes "find_note db (note_id item) = None"
  shows "fst (create now db item) = db_note_to_note (snd (create now db item)) (created_row item)"
  using assms by (simp add: create_def Let_def)

lemma db_note_to_note_fields:
  "db_note_to_note db r = Inr n \<Longrightarrow>
     note_id n = db_id r \<and> title n = db_title r \<and> content n = db_content r \<and>
     created_at n = db_created_at r \<and> updated_at n = db_updated_at r \<and>
     metadata n = db_extra_metadata r \<and> tags n = map Tag (note_tags db (db_id r))"
  by (auto simp: db_note_to_note_def split: option.splits)

lemma create_notes_tbl:
  "find_note db (note_id item) = None \<Longrightarrow>
   notes_tbl (snd (create now db item)) = notes_tbl db @ [created_row item]"
  by (simp add: create_def Let_def)

lemma create_links_tbl:
  assumes "find_note db (note_id item) = None"
  shows "links_tbl (snd (create now db item)) =
           links_tbl db @ map (to_db_link now (note_id item))
             (filter (\<lambda>l. find_note (snd (create now db item)) (target_id l) \<noteq> None) (links item))"
  using assms by (simp add: create_def Let_def add_links_tbl)

lemma update_notes_tbl:
  "find_note db (note_id item) = Some r \<Longrightarrow>
   notes_tbl (snd (update now db item)) =
     map (\<lambda>x. if db_id x = note_id item then updated_row now item r else x) (notes_tbl db)"
  by (simp add: update_def Let_def)

lemma update_links_tbl:
  assumes "find_note db (note_id item) = Some r"
  shows "links_tbl (snd (update now db item)) =
           filter (\<lambda>l. dbl_source_id l \<noteq> note_id item) (links_tbl db) @
           map (to_db_link now (note_id item))
             (filter (\<lambda>l. find_note (snd (update now db item)) (target_id l) \<noteq> None) (links item))"
  using assms by (simp add: update_def Let_def add_links_tbl find_note_def)

lemma to_db_link_source [simp]: "dbl_source_id (to_db_link now i l) = i"
  by (simp add: to_db_link_def)

lemma to_db_link_type [simp]: "dbl_link_type (to_db_link now i l) = LinkType_value (link_type l)"
  by (simp add: to_db_link_def)

lemma wf_db_create:
  assumes "wf_db db"
  shows "wf_db (snd (create now db item))"
proof (cases "find_note db (note_id item)")
  case (Some r)
  then show ?thesis using assms by (simp add: create_def)
next
  case None
  let ?db' = "snd (create now db item)"
  have f: "\<And>k. find_note ?db' k = (if k = note_id item then Some (created_row item) else find_note db k)"
    using create_found [OF None] by simp
  have "distinct (map db_id (notes_tbl ?db'))"
    using assms None by (auto simp: wf_db_def create_notes_tbl find_note_None_iff created_row_def)
  moreover have "\<forall>l \<in> set (links_tbl ?db').
        find_note ?db' (dbl_source_id l) \<noteq> None \<and> LinkType_of (dbl_link_type l) \<noteq> None"
    using assms by (auto simp: wf_db_def create_links_tbl [OF None] f)
  moreover have "\<forall>r \<in> set (notes_tbl ?db'). NoteType_of (db_note_type r) \<noteq> None"
    using assms by (auto simp: wf_db_def create_notes_tbl [OF None] created_row_def)
  ultimately show ?thesis by (simp add: wf_db_def)
qed

lemma wf_db_update:
  assumes "wf_db db"
  shows "wf_db (snd (update now db item))"
proof (cases "find_note db (note_id item)")
  case None
  then show ?thesis using assms by (simp add: update_def)
next
  case (Some r)
  let ?db' = "snd (update now db item)"
  have f: "\<And>k. find_note ?db' k = (if k = note_id item then Some (updated_row now item r) else find_note db k)"
    using update_found [OF Some] by simp
  have idr: "db_id (updated_row now item r) = note_id item"
    using find_note_Some_id [OF Some] by (simp add: updated_row_def)
  have "map db_id (notes_tbl ?db') = map db_id (notes_tbl db)"
    using idr by (auto simp: update_notes_tbl [OF Some])
  then have "distinct (map db_id (notes_tbl ?db'))"
    using assms by (simp add: wf_db_def)
  moreover have "\<forall>l \<in> set (links_tbl ?db').
        find_note ?db' (dbl_source_id l) \<noteq> None \<and> LinkType_of (dbl_link_type l) \<noteq> None"
    using assms by (auto simp: wf_db_def update_links_tbl [OF Some] f)
  moreover have "\<forall>x \<in> set (notes_tbl ?db'). NoteType_of (db_note_type x) \<noteq> None"
    using assms by (auto simp: wf_db_def update_notes_tbl [OF Some] updated_row_def)
  ultimately show ?thesis by (simp add: wf_db_def)
qed

lemma find_filter_other:
  "k \<noteq> i \<Longrightarrow> find (\<lambda>r. f r = k) (filter (\<lambda>r. f r \<noteq> i) xs) = find (\<lambda>r. f r = k) xs"
  by (induction xs) auto

lemma wf_db_delete:
  assumes "wf_db db"
  shows "wf_db (snd (delete db i))"
proof (cases "find_note db i")
  case None
  then show ?thesis using assms by (simp add: delete_def)
next
  case (Some r)
  have f: "\<And>k. k \<noteq> i \<Longrightarrow> find_note (snd (delete db i)) k = find_note db k"
    using Some by (simp add: delete_def find_note_def find_filter_other)
  show ?thesis
    unfolding wf_db_def
  proof (intro conjI ballI)
    show "distinct (map db_id (notes_tbl (snd (delete db i))))"
      using assms Some by (simp add: wf_db_def delete_def distinct_map_filter)
    fix l assume "l \<in> set (links_tbl (snd (delete db i)))"
    then have l: "l \<in> set (links_tbl db)" "dbl_source_id l \<noteq> i"
      using Some by (auto simp: delete_def)
    then show "find_note (snd (delete db i)) (dbl_source_id l) \<noteq> None"
      and "LinkType_of (dbl_link_type l) \<noteq> None"
      using assms f by (auto simp: wf_db_def)
  next
    fix x assume "x \<in> set (notes_tbl (snd (delete db i)))"
    then show "NoteType_of (db_note_type x) \<noteq> None"
      using assms Some by (auto simp: wf_db_def delete_def)
  qed
qed

lemma stored_link_target [simp]: "target_id (stored_link now i l) = target_id l"
  by (simp add: stored_link_def)

lemma db_note_to_note_links:
  assumes "outgoing_links db (db_id r) = map (to_db_link now i) ks"
    and "NoteType_of (db_note_type r) \<noteq> None"
  shows "\<exists>n. db_note_to_note db r = Inr n \<and> links n = map (stored_link now i) ks"
  using assms by (auto simp: db_note_to_note_def)

lemma create_outgoing:
  assumes "wf_db db" and "find_note db (note_id item) = None"
  shows "outgoing_links (snd (create now db item)) (note_id item) =
           map (to_db_link now (note_id item))
             (filter (\<lambda>l. find_note (snd (create now db item)) (target_id l) \<noteq> None) (links item))"
proof -
  have "filter (\<lambda>l. dbl_source_id l = note_id item) (links_tbl db) = []"
    using assms by (auto simp: wf_db_def filter_empty_conv)
  then show ?thesis
    by (simp add: outgoing_links_def create_links_tbl [OF assms(2)] filter_map o_def)
qed

lemma update_outgoing:
  assumes "find_note db (note_id item) = Some r"
  shows "outgoing_links (snd (update now db item)) (note_id item) =
           map (to_db_link now (note_id item))
             (filter (\<lambda>l. find_note (snd (update now db item)) (target_id l) \<noteq> None) (links item))"
proof -
  have "filter (\<lambda>l. dbl_source_id l = note_id item)
          (filter (\<lambda>l. dbl_source_id l \<noteq> note_id item) (links_tbl db)) = []"
    by (auto simp: filter_empty_conv)
  then show ?thesis
    by (simp add: outgoing_links_def update_links_tbl [OF assms] filter_map o_def)
qed

lemma create_read:
  assumes "wf_db db" and "find_note db (note_id item) = None"
  shows "\<exists>n. fst (create now db item) = Inr n \<and>
             read (snd (create now db item)) (note_id item) = Inr (Some n) \<and>
             links n = map (stored_link now (note_id item))
               (filter (\<lambda>l. find_note (snd (create now db item)) (target_id l) \<noteq> None) (links item))"
proof -
  let ?db' = "snd (create now db item)"
  have "outgoing_links ?db' (db_id (created_row item)) =
          map (to_db_link now (note_id item))
            (filter (\<lambda>l. find_note ?db' (target_id l) \<noteq> None) (links item))"
    using create_outgoing [OF assms] by (simp add: created_row_def)
  moreover have "NoteType_of (db_note_type (created_row item)) \<noteq> None"
    by (simp add: created_row_def)
  ultimately obtain n where n: "db_note_to_note ?db' (created_row item) = Inr n"
    "links n = map (stored_link now (note_id item))
       (filter (\<lambda>l. find_note ?db' (target_id l) \<noteq> None) (links item))"
    using db_note_to_note_links by blast
  have "read ?db' (note_id item) = Inr (Some n)"
    using n(1) create_found [OF assms(2), of now "note_id item"] by (simp add: read_def)
  then show ?thesis using n create_result [OF assms(2)] by simp
qed

lemma update_read:
  assumes "find_note db (note_id item) = Some r"
  shows "\<exists>n. fst (update now db item) = Inr n \<and>
             read (snd (update now db item)) (note_id item) = Inr (Some n) \<and>
             links n = map (stored_link now (note_id item))
               (filter (\<lambda>l. find_note (snd (update now db item)) (target_id l) \<noteq> None) (links item))"
proof -
  let ?db' = "snd (update now db item)"
  have idr: "db_id (updated_row now item r) = note_id item"
    using find_note_Some_id [OF assms] by (simp add: updated_row_def)
  have "outgoing_links ?db' (db_id (updated_row now item r)) =
          map (to_db_link now (note_id item))
            (filter (\<lambda>l. find_note ?db' (target_id l) \<noteq> None) (links item))"
    using update_outgoing [OF assms] idr by simp
  moreover have "NoteType_of (db_note_type (updated_row now item r)) \<noteq> None"
    by (simp add: updated_row_def)
  ultimately obtain n where n: "db_note_to_note ?db' (updated_row now item r) = Inr n"
    "links n = map (stored_link now (note_id item))
       (filter (\<lambda>l. find_note ?db' (target_id l) \<noteq> None) (links item))"
    using db_note_to_note_links by blast
  have "read ?db' (note_id item) = Inr (Some n)"
    using n(1) update_found [OF assms, of now "note_id item"] by (simp add: read_def)
  then show ?thesis using n update_result [OF assms] by simp
qed

lemma add_tags_note_tags_other:
  "k \<noteq> i \<Longrightarrow> note_tags (add_tags i ts db) k = note_tags db k"
  by (induction ts arbitrary: db) (auto simp: note_tags_def)

lemma read_after_create_other:
  assumes "find_note db (note_id item) = None" and "k \<noteq> note_id item"
  shows "read (snd (create now db item)) k = read db k"
proof -
  let ?db' = "snd (create now db item)"
  have f: "find_note ?db' k = find_note db k"
    using create_found [OF assms(1)] assms(2) by simp
  have o: "outgoing_links ?db' k = outgoing_links db k"
    using assms(2) by (auto simp: outgoing_links_def create_links_tbl [OF assms(1)] filter_empty_conv)
  have "note_tags_tbl ?db' = note_tags_tbl (add_tags (note_id item) (tags item) (db\<lparr>notes_tbl := notes_tbl db @ [created_row item]\<rparr>))"
    using assms(1) by (simp add: create_def Let_def)
  then have t: "note_tags ?db' k = note_tags db k"
    using add_tags_note_tags_other [OF assms(2), of "tags item" "db\<lparr>notes_tbl := notes_tbl db @ [created_row item]\<rparr>"]
    by (simp add: note_tags_def)
  show ?thesis
  proof (cases "find_note db k")
    case None
    then show ?thesis using f by (simp add: read_def)
  next
    case (Some r)
    then have "db_id r = k" by (rule find_note_Some_id)
    with o t have "outgoing_links ?db' (db_id r) = outgoing_links db (db_id r)"
      and "note_tags ?db' (db_id r) = note_tags db (db_id r)"
      by simp_all
    then have "db_note_to_note ?db' r = db_note_to_note db r"
      by (simp add: db_note_to_note_def split: option.splits)
    then show ?thesis using f Some by (simp add: read_def)
  qed
qed

lemma link_scenario:
  assumes wf: "wf_db db"
    and fa: "find_note db (note_id a) = None" and fb: "find_note db (note_id b) = None"
    and ab: "note_id a \<noteq> note_id b" and l: "l \<in> set (links a)" "target_id l = note_id b"
  shows "\<exists>n1. read (snd (create t1 db a)) (note_id a) = Inr (Some n1) \<and>
              note_id b \<notin> target_id ` set (links n1)"
    and "\<exists>n2. read (snd (create t2 (snd (create t1 db a)) b)) (note_id a) = Inr (Some n2) \<and>
              note_id b \<notin> target_id ` set (links n2)"
    and "\<exists>n3. read (snd (update t3 (snd (create t2 (snd (create t1 db a)) b)) a)) (note_id a)
                = Inr (Some n3) \<and>
              stored_link t3 (note_id a) l \<in> set (links n3)"
proof -
  let ?db1 = "snd (create t1 db a)"
  let ?db2 = "snd (create t2 ?db1 b)"
  let ?db3 = "snd (update t3 ?db2 a)"
  have fb1: "find_note ?db1 (note_id b) = None"
    using create_found [OF fa, of t1 "note_id b"] ab fb by simp
  obtain n1 where n1: "read ?db1 (note_id a) = Inr (Some n1)"
    "links n1 = map (stored_link t1 (note_id a))
       (filter (\<lambda>l. find_note ?db1 (target_id l) \<noteq> None) (links a))"
    using create_read [OF wf fa, of t1] by blast
  have nb: "note_id b \<notin> target_id ` set (links n1)"
    using fb1 by (auto simp: n1(2))
  show "\<exists>n1. read ?db1 (note_id a) = Inr (Some n1) \<and> note_id b \<notin> target_id ` set (links n1)"
    using n1(1) nb by blast
  have "read ?db2 (note_id a) = read ?db1 (note_id a)"
    using read_after_create_other [OF fb1, of "note_id a" t2] ab by simp
  then show "\<exists>n2. read ?db2 (note_id a) = Inr (Some n2) \<and> note_id b \<notin> target_id ` set (links n2)"
    using n1(1) nb by auto
  have fa2: "find_note ?db2 (note_id a) = Some (created_row a)"
    using create_found [OF fb1, of t2 "note_id a"] create_found [OF fa, of t1 "note_id a"] ab by simp
  have fb2: "find_note ?db2 (note_id b) \<noteq> None"
    using create_found [OF fb1, of t2 "note_id b"] by simp
  have fb3: "find_note ?db3 (note_id b) \<noteq> None"
    using update_found [OF fa2, of t3 "note_id b"] ab fb2 by simp
  obtain n3 where n3: "read ?db3 (note_id a) = Inr (Some n3)"
    "links n3 = map (stored_link t3 (note_id a))
       (filter (\<lambda>l. find_note ?db3 (target_id l) \<noteq> None) (links a))"
    using update_read [OF fa2, of t3] by blast
  have "stored_link t3 (note_id a) l \<in> set (links n3)"
    using l fb3 by (auto simp: n3(2))
  then show "\<exists>n3. read ?db3 (note_id a) = Inr (Some n3) \<and> stored_link t3 (note_id a) l \<in> set (links n3)"
    using n3(1) by blast
qed

text \<open>
  Claim C1.  In a store that satisfies the schema's invariants, \<open>create\<close> of a note with a
  fresh id and \<open>update\<close> of a note with an existing id succeed, and the links the note
  has afterwards (in the table and as \<open>read\<close> returns them) are exactly the supplied links
  whose target id is the id of a note in the store at that moment, in the supplied order;
  the other links leave no trace.  In particular: create A with a link to a missing B, and
  reading A shows no link to B; create B, and reading A still shows none; update A with
  the same link, and reading A shows it.
\<close>

theorem C1_links_persisted_iff_target_exists:
  assumes wf: "wf_db db"
  shows
    "(find_note db (note_id item) = None \<longrightarrow>
        (let db' = snd (create now db item);
             kept = filter (\<lambda>l. find_note db' (target_id l) \<noteq> None) (links item)
         in (\<forall>t. find_note db' t \<noteq> None \<longleftrightarrow> find_note db t \<noteq> None \<or> t = note_id item) \<and>
            outgoing_links db' (note_id item) = map (to_db_link now (note_id item)) kept \<and>
            (\<exists>n. fst (create now db item) = Inr n \<and>
                 read db' (note_id item) = Inr (Some n) \<and>
                 links n = map (stored_link now (note_id item)) kept))) \<and>
     (find_note db (note_id item') \<noteq> None \<longrightarrow>
        (let db' = snd (update now db item');
             kept = filter (\<lambda>l. find_note db' (target_id l) \<noteq> None) (links item')
         in (\<forall>t. find_note db' t \<noteq> None \<longleftrightarrow> find_note db t \<noteq> None) \<and>
            outgoing_links db' (note_id item') = map (to_db_link now (note_id item')) kept \<and>
            (\<exists>n. fst (update now db item') = Inr n \<and>
                 read db' (note_id item') = Inr (Some n) \<and>
                 links n = map (stored_link now (note_id item')) kept))) \<and>
     (find_note db (note_id a) = None \<and> find_note db (note_id b) = None \<and>
      note_id a \<noteq> note_id b \<and> l \<in> set (links a) \<and> target_id l = note_id b \<longrightarrow>
        (let db1 = snd (create t1 db a); db2 = snd (create t2 db1 b);
             db3 = snd (update t3 db2 a)
         in (\<exists>n1. read db1 (note_id a) = Inr (Some n1) \<and>
                  note_id b \<notin> target_id ` set (links n1)) \<and>
            (\<exists>n2. read db2 (note_id a) = Inr (Some n2) \<and>
                  note_id b \<notin> target_id ` set (links n2)) \<and>
            (\<exists>n3. read db3 (note_id a) = Inr (Some n3) \<and>
                  stored_link t3 (note_id a) l \<in> set (links n3))))"
proof (intro conjI impI)
  assume f: "find_note db (note_id item) = None"
  have "\<forall>t. find_note (snd (create now db item)) t \<noteq> None \<longleftrightarrow>
          find_note db t \<noteq> None \<or> t = note_id item"
    using create_found [OF f, of now] by simp
  then show "let db' = snd (create now db item);
             kept = filter (\<lambda>l. find_note db' (target_id l) \<noteq> None) (links item)
         in (\<forall>t. find_note db' t \<noteq> None \<longleftrightarrow> find_note db t \<noteq> None \<or> t = note_id item) \<and>
            outgoing_links db' (note_id item) = map (to_db_link now (note_id item)) kept \<and>
            (\<exists>n. fst (create now db item) = Inr n \<and>
                 read db' (note_id item) = Inr (Some n) \<and>
                 links n = map (stored_link now (note_id item)) kept)"
    unfolding Let_def using create_outgoing [OF wf f, of now] create_read [OF wf f, of now]
    by blast
next
  assume "find_note db (note_id item') \<noteq> None"
  then obtain r where f: "find_note db (note_id item') = Some r" by blast
  have "\<forall>t. find_note (snd (update now db item')) t \<noteq> None \<longleftrightarrow> find_note db t \<noteq> None"
    using update_found [OF f, of now] f by simp
  then show "let db' = snd (update now db item');
             kept = filter (\<lambda>l. find_note db' (target_id l) \<noteq> None) (links item')
         in (\<forall>t. find_note db' t \<noteq> None \<longleftrightarrow> find_note db t \<noteq> None) \<and>
            outgoing_links db' (note_id item') = map (to_db_link now (note_id item')) kept \<and>
            (\<exists>n. fst (update now db item') = Inr n \<and>
                 read db' (note_id item') = Inr (Some n) \<and>
                 links n = map (stored_link now (note_id item')) kept)"
    unfolding Let_def using update_outgoing [OF f, of now] update_read [OF f, of now]
    by blast
next
  assume "find_note db (note_id a) = None \<and> find_note db (note_id b) = None \<and>
      note_id a \<noteq> note_id b \<and> l \<in> set (links a) \<and> target_id l = note_id b"
  then have h: "find_note db (note_id a) = None" "find_note db (note_id b) = None"
    "note_id a \<noteq> note_id b" "l \<in> set (links a)" "target_id l = note_id b"
    by simp_all
  show "let db1 = snd (create t1 db a); db2 = snd (create t2 db1 b);
             db3 = snd (update t3 db2 a)
         in (\<exists>n1. read db1 (note_id a) = Inr (Some n1) \<and>
                  note_id b \<notin> target_id ` set (links n1)) \<and>
            (\<exists>n2. read db2 (note_id a) = Inr (Some n2) \<and>
                  note_id b \<notin> target_id ` set (links n2)) \<and>
            (\<exists>n3. read db3 (note_id a) = Inr (Some n3) \<and>
                  stored_link t3 (note_id a) l \<in> set (links n3))"
    unfolding Let_def using link_scenario [OF wf h] by blast
qed

lemma ex_db_notes: "notes_tbl ex_db = [created_row (ex_note ''n1'' [])]"
  by (simp add: ex_db_def create_def Let_def empty_db_def find_note_def)

lemma find_note_ex_db: "find_note ex_db k = (if k = ''n1'' then Some (created_row (ex_note ''n1'' [])) else None)"
  by (simp add: find_note_def ex_db_notes created_row_def ex_note_def)

lemma wf_empty_db: "wf_db empty_db"
  by (simp add: wf_db_def empty_db_def)

lemma wf_ex_db: "wf_db ex_db"
  unfolding ex_db_def by (rule wf_db_create [OF wf_empty_db])

theorem C5_witness:
  "find_note ex_db (note_id (ex_note ''n1'' [])) \<noteq> None \<and>
   create ex_time ex_db (ex_note ''n1'' []) = (Inl (AlreadyExists ''n1''), ex_db) \<and>
   find_note ex_db ''n2'' = None \<and>
   delete ex_db ''n2'' = (Inl (DoesNotExist ''n2''), ex_db) \<and>
   find_note ex_db ''n1'' \<noteq> None \<and>
   fst (delete ex_db ''n1'') = Inr () \<and>
   read (snd (delete ex_db ''n1'')) ''n1'' = Inr None \<and>
   fst (delete (snd (delete ex_db ''n1'')) ''n1'') = Inl (DoesNotExist ''n1'')"
  using C5_create_delete_errors [of ex_time ex_db "ex_note ''n1'' []" "''n2''" "''n1''"]
  by (simp add: find_note_ex_db ex_note_def)

theorem C1_witness:
  "wf_db ex_db \<and>
   find_note ex_db ''n2'' = None \<and>
   (\<exists>n. read (snd (create ex_time ex_db
           (ex_note ''n2'' [ex_link ''n2'' ''n1'', ex_link ''n2'' ''zz''])))  ''n2'' = Inr (Some n) \<and>
        links n = [stored_link ex_time ''n2'' (ex_link ''n2'' ''n1'')]) \<and>
   find_note ex_db ''n1'' \<noteq> None \<and>
   (\<exists>n. read (snd (update ex_time ex_db (ex_note ''n1'' [ex_link ''n1'' ''zz''])))  ''n1''
          = Inr (Some n) \<and> links n = []) \<and>
   find_note ex_db ''A'' = None \<and> find_note ex_db ''B'' = None \<and>
   (\<exists>n1. read (snd (create ex_time ex_db (ex_note ''A'' [ex_link ''A'' ''B''])))  ''A''
          = Inr (Some n1) \<and> ''B'' \<notin> target_id ` set (links n1)) \<and>
   (\<exists>n3. read (snd (update ex_time
            (snd (create ex_time (snd (create ex_time ex_db (ex_note ''A'' [ex_link ''A'' ''B''])))
                   (ex_note ''B'' [])))
            (ex_note ''A'' [ex_link ''A'' ''B'']))) ''A'' = Inr (Some n3) \<and>
         stored_link ex_time ''A'' (ex_link ''A'' ''B'') \<in> set (links n3))"
proof -
  let ?c = "ex_note ''n2'' [ex_link ''n2'' ''n1'', ex_link ''n2'' ''zz'']"
  let ?u = "ex_note ''n1'' [ex_link ''n1'' ''zz'']"
  let ?a = "ex_note ''A'' [ex_link ''A'' ''B'']"
  let ?b = "ex_note ''B'' []"
  have n [simp]: "note_id (ex_note i ls) = i" "links (ex_note i ls) = ls" for i ls
    by (simp_all add: ex_note_def)
  have t [simp]: "target_id (ex_link s t) = t" for s t
    by (simp add: ex_link_def)
  have hc: "find_note ex_db (note_id ?c) = None"
    and hu: "find_note ex_db (note_id ?u) \<noteq> None"
    and hs: "find_note ex_db (note_id ?a) = None \<and> find_note ex_db (note_id ?b) = None \<and>
      note_id ?a \<noteq> note_id ?b \<and> ex_link ''A'' ''B'' \<in> set (links ?a) \<and>
      target_id (ex_link ''A'' ''B'') = note_id ?b"
    by (simp_all add: find_note_ex_db)
  note T = C1_links_persisted_iff_target_exists [OF wf_ex_db,
        where item = ?c and item' = ?u and a = ?a and b = ?b and l = "ex_link ''A'' ''B''"
          and now = ex_time and ?t1.0 = ex_time and ?t2.0 = ex_time and ?t3.0 = ex_time]
  from T hc obtain n where "read (snd (create ex_time ex_db ?c)) (note_id ?c) = Inr (Some n)"
    and "links n = map (stored_link ex_time (note_id ?c))
      (filter (\<lambda>l. find_note (snd (create ex_time ex_db ?c)) (target_id l) \<noteq> None) (links ?c))"
    unfolding Let_def by blast
  then have c: "\<exists>n. read (snd (create ex_time ex_db ?c)) ''n2'' = Inr (Some n) \<and>
        links n = [stored_link ex_time ''n2'' (ex_link ''n2'' ''n1'')]"
    by (simp add: create_found [OF hc] find_note_ex_db)
  obtain r where hu': "find_note ex_db (note_id ?u) = Some r"
    using hu by blast
  from T hu obtain m where "read (snd (update ex_time ex_db ?u)) (note_id ?u) = Inr (Some m)"
    and "links m = map (stored_link ex_time (note_id ?u))
      (filter (\<lambda>l. find_note (snd (update ex_time ex_db ?u)) (target_id l) \<noteq> None) (links ?u))"
    unfolding Let_def by blast
  then have u: "\<exists>n. read (snd (update ex_time ex_db ?u)) ''n1'' = Inr (Some n) \<and> links n = []"
    by (simp add: update_found [OF hu'] find_note_ex_db)
  from T hs have s: "(\<exists>n1. read (snd (create ex_time ex_db ?a)) (note_id ?a) = Inr (Some n1) \<and>
          note_id ?b \<notin> target_id ` set (links n1)) \<and>
     (\<exists>n3. read (snd (update ex_time (snd (create ex_time (snd (create ex_time ex_db ?a)) ?b)) ?a))
            (note_id ?a) = Inr (Some n3) \<and>
          stored_link ex_time (note_id ?a) (ex_link ''A'' ''B'') \<in> set (links n3))"
    unfolding Let_def by blast
  show ?thesis
    using wf_ex_db c u s by (simp add: find_note_ex_db)
qed

section \<open>Search\<close>


lemma like_percent_skip: "like ps s \<Longrightarrow> like (CHR ''%'' # ps) s"
  by (cases s) auto

lemma like_percent_all: "like ''%'' s"
  by (induction s) auto

lemma like_three_percent: "like ''%%%'' s"
  by (intro like_percent_skip like_percent_all)

lemma like_underscore: "like ''%_%'' s \<longleftrightarrow> s \<noteq> []"
proof (induction s)
  case Nil
  then show ?case by simp
next
  case (Cons c cs)
  show ?case using like_percent_all [of cs] by simp
qed

lemma lower_percent [simp]: "lower_char CHR ''%'' = CHR ''%''"
  by (simp add: lower_char_def)

lemma lower_underscore [simp]: "lower_char CHR ''_'' = CHR ''_''"
  by (simp add: lower_char_def)

lemma ilike_percent [simp]: "ilike s ''%%%''"
  by (simp add: ilike_def like_three_percent)

lemma ilike_underscore [simp]: "ilike s ''%_%'' \<longleftrightarrow> s \<noteq> []"
  by (simp add: ilike_def like_underscore)

text \<open>
  Claim C10 (as amended).  \<open>search\<close> puts the query between two \<open>%\<close> unescaped, so \<open>%\<close> and
  \<open>_\<close> in the query are wildcards.  With the title or the content flag enabled,
  \<open>search("%")\<close> returns what \<open>list\<close> returns for the same limit, that is every note up to
  the limit.  With only the tag flag enabled it returns the notes that have at least one
  tag.  \<open>search("_")\<close> on titles returns every note with a non-empty title.
\<close>

theorem C10_search_percent:
  "(search_title \<or> search_content \<longrightarrow>
      search db ''%'' limit search_title search_content search_tags =
        list_notes db limit 0 None None) \<and>
   search db ''%'' limit False False True =
     convert_all db (take limit (order_by_updated_desc
       (filter (\<lambda>r. note_tags db (db_id r) \<noteq> []) (notes_tbl db)))) \<and>
   search db ''_'' limit True False False =
     convert_all db (take limit (order_by_updated_desc
       (filter (\<lambda>r. db_title r \<noteq> []) (notes_tbl db))))"
proof (intro conjI impI)
  assume "search_title \<or> search_content"
  then show "search db ''%'' limit search_title search_content search_tags =
        list_notes db limit 0 None None"
    by (auto simp: search_def list_notes_def)
next
  show "search db ''%'' limit False False True =
     convert_all db (take limit (order_by_updated_desc
       (filter (\<lambda>r. note_tags db (db_id r) \<noteq> []) (notes_tbl db))))"
    by (simp add: search_def ex_in_conv)
next
  show "search db ''_'' limit True False False =
     convert_all db (take limit (order_by_updated_desc
       (filter (\<lambda>r. db_title r \<noteq> []) (notes_tbl db))))"
    by (simp add: search_def)
qed

lemma note_tags_ex_db: "note_tags ex_db k = []"
  by (simp add: note_tags_def ex_db_def create_def Let_def empty_db_def find_note_def ex_note_def)

lemma links_ex_db: "links_tbl ex_db = []"
  by (simp add: ex_db_def create_def Let_def empty_db_def find_note_def ex_note_def)

lemma list_ex_db: "list_notes ex_db 50 0 None None = Inr [ex_note ''n1'' []]"
  by (simp add: list_notes_def order_by_updated_desc_def ex_db_notes db_note_to_note_def
      outgoing_links_def links_ex_db note_tags_ex_db created_row_def ex_note_def
      NoteType_of_def)

text \<open>
  The claim as stated fails with only the tag flag enabled: the store \<open>ex_db\<close> is not
  empty, its note has no tag, and \<open>search("%")\<close> on tags returns nothing.
\<close>

theorem C10_counterexample:
  "notes_tbl ex_db \<noteq> [] \<and> search ex_db ''%'' 50 False False True = Inr []"
  by (simp add: search_def ex_db_notes note_tags_ex_db order_by_updated_desc_def)

theorem C10_witness:
  "(True \<or> False) \<and>
   search ex_db ''%'' 50 True False False = Inr [ex_note ''n1'' []] \<and>
   CHR ''%'' \<notin> set (title (ex_note ''n1'' [])) \<and>
   CHR ''%'' \<notin> set (content (ex_note ''n1'' []))"
  using C10_search_percent [of True False ex_db 50 False]
  by (simp add: list_ex_db) (simp add: ex_note_def)

section \<open>Properties of link validation\<close>


lemma those_Some_iff: "those xs = Some ys \<longleftrightarrow> xs = map Some ys"
  by (induction xs arbitrary: ys) (auto split: option.splits)

lemma db_link_to_link_target:
  "db_link_to_link l = Some x \<Longrightarrow> target_id x = dbl_target_id l"
  by (auto simp: db_link_to_link_def split: option.splits)

lemma those_links_targets:
  "those (map db_link_to_link ls) = Some xs \<Longrightarrow> map target_id xs = map dbl_target_id ls"
proof (induction ls arbitrary: xs)
  case Nil
  then show ?case by simp
next
  case (Cons l ls)
  then show ?case
    by (auto split: option.splits dest: db_link_to_link_target)
qed

lemma those_links_defined:
  "\<forall>l \<in> set ls. LinkType_of (dbl_link_type l) \<noteq> None \<Longrightarrow>
   \<exists>xs. those (map db_link_to_link ls) = Some xs"
  by (induction ls) (auto simp: db_link_to_link_def split: option.splits)

lemma db_note_to_note_targets:
  "db_note_to_note db r = Inr n \<Longrightarrow>
     note_id n = db_id r \<and>
     map target_id (links n) = map dbl_target_id (outgoing_links db (db_id r))"
  by (auto simp: db_note_to_note_def split: option.splits dest: those_links_targets)

lemma db_note_to_note_defined:
  assumes "wf_db db" and "r \<in> set (notes_tbl db)"
  shows "\<exists>n. db_note_to_note db r = Inr n"
proof -
  have "\<forall>l \<in> set (outgoing_links db (db_id r)). LinkType_of (dbl_link_type l) \<noteq> None"
    using assms(1) by (auto simp: wf_db_def outgoing_links_def)
  from those_links_defined [OF this] obtain xs
    where "those (map db_link_to_link (outgoing_links db (db_id r))) = Some xs" by blast
  moreover obtain k where "NoteType_of (db_note_type r) = Some k"
    using assms by (auto simp: wf_db_def)
  ultimately show ?thesis by (simp add: db_note_to_note_def)
qed

lemma convert_all_defined:
  assumes "wf_db db" and "set rows \<subseteq> set (notes_tbl db)"
  shows "\<exists>ns. convert_all db rows = Inr ns"
  using assms(2)
proof (induction rows)
  case Nil
  then show ?case by simp
next
  case (Cons r rows)
  then obtain ns where "convert_all db rows = Inr ns" by auto
  moreover obtain n where "db_note_to_note db r = Inr n"
    using db_note_to_note_defined [OF assms(1), of r] Cons.prems by auto
  ultimately show ?case by simp
qed

lemma convert_all_rel:
  "convert_all db rows = Inr ns \<Longrightarrow> list_all2 (\<lambda>r n. db_note_to_note db r = Inr n) rows ns"
  by (induction rows arbitrary: ns) (auto split: sum.splits)

lemma convert_all_ids:
  "convert_all db rows = Inr ns \<Longrightarrow> map note_id ns = map db_id rows"
  by (induction rows arbitrary: ns) (auto split: sum.splits dest: db_note_to_note_targets)

text \<open>The dictionary built by the loop of validate_links.\<close>

lemma fold_broken_lookup:
  assumes "distinct (map note_id ns)"
  shows "fold (\<lambda>note broken_links.
            (let broken = f note
             in if broken \<noteq> [] then broken_links(note_id note \<mapsto> broken) else broken_links))
          ns m s =
         (case find (\<lambda>n. note_id n = s) ns of
            None \<Rightarrow> m s
          | Some n \<Rightarrow> if f n \<noteq> [] then Some (f n) else m s)"
  using assms
proof (induction ns arbitrary: m)
  case Nil
  then show ?case by simp
next
  case (Cons n ns)
  have nf: "note_id n = s \<Longrightarrow> find (\<lambda>n. note_id n = s) ns = None"
    using Cons.prems by (auto simp: find_None_iff image_iff)
  show ?case
    using Cons.IH [of "if f n \<noteq> [] then m(note_id n \<mapsto> f n) else m"] Cons.prems nf
    by (auto simp: Let_def split: option.splits)
qed

lemma distinct_map_insort_key:
  "distinct (map f (insort_key g x xs)) \<longleftrightarrow> f x \<notin> f ` set xs \<and> distinct (map f xs)"
  by (induction xs) (auto simp: set_insort_key)

lemma distinct_map_sort_key:
  "distinct (map f (sort_key g xs)) \<longleftrightarrow> distinct (map f xs)"
  by (induction xs) (auto simp: distinct_map_insort_key)

lemma distinct_map_take: "distinct (map f xs) \<Longrightarrow> distinct (map f (take n xs))"
  by (simp add: take_map [symmetric] distinct_take)

lemma loaded_subset: "set (loaded db) \<subseteq> set (notes_tbl db)"
  using set_take_subset [of 10000 "order_by_updated_desc (notes_tbl db)"]
  by (simp add: loaded_def order_by_updated_desc_def)

lemma loaded_distinct: "wf_db db \<Longrightarrow> distinct (map db_id (loaded db))"
  unfolding loaded_def order_by_updated_desc_def
  by (intro distinct_map_take) (simp add: rev_map [symmetric] distinct_map_sort_key wf_db_def)

lemma loaded_all: "length (notes_tbl db) \<le> 10000 \<Longrightarrow> set (loaded db) = set (notes_tbl db)"
  by (simp add: loaded_def order_by_updated_desc_def)

lemma list_notes_all: "list_notes db 10000 0 None None = convert_all db (loaded db)"
  by (simp add: list_notes_def loaded_def)

lemma validate_links_loaded:
  assumes wf: "wf_db db"
  shows "\<exists>m. validate_links db = Inr m \<and>
           (\<forall>s. m s =
              (let broken = map dbl_target_id
                     (filter (\<lambda>l. dbl_target_id l \<notin> db_id ` set (loaded db)) (outgoing_links db s))
               in if s \<in> db_id ` set (loaded db) \<and> broken \<noteq> [] then Some broken else None))"
proof -
  obtain ns where ns: "convert_all db (loaded db) = Inr ns"
    using convert_all_defined [OF wf loaded_subset] by blast
  have ids: "map note_id ns = map db_id (loaded db)"
    by (rule convert_all_ids [OF ns])
  then have idset: "set (map note_id ns) = db_id ` set (loaded db)"
    by (metis set_map)
  have dist: "distinct (map note_id ns)"
    using loaded_distinct [OF wf] ids by simp
  have brk: "broken_targets (db_id ` set (loaded db)) n =
        map dbl_target_id (filter (\<lambda>l. dbl_target_id l \<notin> db_id ` set (loaded db))
          (outgoing_links db (note_id n)))" if "n \<in> set ns" for n
  proof -
    from convert_all_rel [OF ns] that obtain r where "db_note_to_note db r = Inr n"
      by (auto simp: list_all2_conv_all_nth in_set_conv_nth)
    from db_note_to_note_targets [OF this]
    have "note_id n = db_id r"
      and "map target_id (links n) = map dbl_target_id (outgoing_links db (db_id r))"
      by simp_all
    then have "filter (\<lambda>t. t \<notin> db_id ` set (loaded db)) (map target_id (links n)) =
        filter (\<lambda>t. t \<notin> db_id ` set (loaded db))
          (map dbl_target_id (outgoing_links db (note_id n)))"
      by simp
    then show ?thesis
      by (simp add: broken_targets_def filter_map o_def)
  qed
  define m where "m = fold (\<lambda>note broken_links.
            (let broken = broken_targets (db_id ` set (loaded db)) note
             in if broken \<noteq> [] then broken_links(note_id note \<mapsto> broken) else broken_links))
          ns Map.empty"
  have v: "validate_links db = Inr m"
    using ns idset by (simp add: validate_links_def list_notes_all m_def)
  have L: "m s = (case find (\<lambda>n. note_id n = s) ns of
            None \<Rightarrow> None
          | Some n \<Rightarrow> if broken_targets (db_id ` set (loaded db)) n \<noteq> []
                     then Some (broken_targets (db_id ` set (loaded db)) n) else None)" for s
    unfolding m_def by (rule fold_broken_lookup [OF dist])
  have "m s =
      (let broken = map dbl_target_id
             (filter (\<lambda>l. dbl_target_id l \<notin> db_id ` set (loaded db)) (outgoing_links db s))
       in if s \<in> db_id ` set (loaded db) \<and> broken \<noteq> [] then Some broken else None)" for s
  proof (cases "find (\<lambda>n. note_id n = s) ns")
    case None
    then have "s \<notin> note_id ` set ns"
      by (auto simp: find_None_iff)
    then have "s \<notin> db_id ` set (loaded db)"
      using idset by simp
    then show ?thesis
      using None by (simp add: L Let_def)
  next
    case (Some n)
    then have n: "n \<in> set ns" "note_id n = s"
      by (auto simp: find_Some_iff)
    then have "s \<in> db_id ` set (loaded db)"
      using idset by force
    then show ?thesis
      using Some brk [OF n(1)] n(2) by (simp add: L Let_def)
  qed
  then show ?thesis using v by blast
qed

lemma ids_conv: "i \<in> db_id ` set (notes_tbl db) \<longleftrightarrow> find_note db i \<noteq> None"
  by (simp add: find_note_None_iff)

lemma validate_links_small:
  assumes wf: "wf_db db" and len: "length (notes_tbl db) \<le> 10000"
  shows "\<exists>m. validate_links db = Inr m \<and>
           (\<forall>s. m s = (if dangling_targets db s \<noteq> [] then Some (dangling_targets db s) else None))"
proof -
  obtain m where m: "validate_links db = Inr m"
    "\<And>s. m s =
              (let broken = map dbl_target_id
                     (filter (\<lambda>l. dbl_target_id l \<notin> db_id ` set (loaded db)) (outgoing_links db s))
               in if s \<in> db_id ` set (loaded db) \<and> broken \<noteq> [] then Some broken else None)"
    using validate_links_loaded [OF wf] by blast
  have d: "map dbl_target_id
             (filter (\<lambda>l. dbl_target_id l \<notin> db_id ` set (loaded db)) (outgoing_links db s))
           = dangling_targets db s" for s
    by (simp add: dangling_targets_def loaded_all [OF len] ids_conv)
  have "s \<in> db_id ` set (loaded db)" if "dangling_targets db s \<noteq> []" for s
  proof -
    from that obtain l where "l \<in> set (links_tbl db)" "dbl_source_id l = s"
      by (auto simp: dangling_targets_def outgoing_links_def filter_empty_conv)
    then have "find_note db s \<noteq> None"
      using wf by (auto simp: wf_db_def)
    then show ?thesis
      by (simp add: loaded_all [OF len] ids_conv)
  qed
  then have "m s = (if dangling_targets db s \<noteq> [] then Some (dangling_targets db s) else None)" for s
    by (auto simp: m(2) d Let_def)
  then show ?thesis using m(1) by blast
qed

lemma dangling_all_empty_iff:
  "(\<forall>s. dangling_targets db s = []) \<longleftrightarrow>
   (\<forall>l \<in> set (links_tbl db). find_note db (dbl_target_id l) \<noteq> None)"
  by (auto simp: dangling_targets_def outgoing_links_def filter_empty_conv)

lemma validate_links_empty_iff:
  assumes wf: "wf_db db" and len: "length (notes_tbl db) \<le> 10000"
  shows "validate_links db = Inr Map.empty \<longleftrightarrow>
         (\<forall>l \<in> set (links_tbl db). find_note db (dbl_target_id l) \<noteq> None)"
proof -
  obtain m where m: "validate_links db = Inr m"
    "\<And>s. m s = (if dangling_targets db s \<noteq> [] then Some (dangling_targets db s) else None)"
    using validate_links_small [OF wf len] by blast
  have "m = Map.empty \<longleftrightarrow> (\<forall>s. dangling_targets db s = [])"
    by (auto simp: fun_eq_iff m(2))
  then show ?thesis
    using m(1) by (simp add: dangling_all_empty_iff)
qed

lemma to_db_link_target [simp]: "dbl_target_id (to_db_link now i l) = target_id l"
  by (simp add: to_db_link_def)

lemma one_dangling_link:
  assumes wf: "wf_db db" and n: "notes_tbl db = [r]" and l: "links_tbl db = [l]"
    and src: "dbl_source_id l = db_id r" and tgt: "dbl_target_id l \<noteq> db_id r"
  shows "validate_links db = Inr [db_id r \<mapsto> [dbl_target_id l]]"
proof -
  have len: "length (notes_tbl db) \<le> 10000" by (simp add: n)
  obtain m where m: "validate_links db = Inr m"
    "\<And>s. m s = (if dangling_targets db s \<noteq> [] then Some (dangling_targets db s) else None)"
    using validate_links_small [OF wf len] by blast
  have "dangling_targets db s = (if s = db_id r then [dbl_target_id l] else [])" for s
    using src tgt by (auto simp: dangling_targets_def outgoing_links_def l find_note_def n)
  then have "m = [db_id r \<mapsto> [dbl_target_id l]]"
    by (auto simp: fun_eq_iff m(2))
  then show ?thesis using m(1) by simp
qed

lemma dangling_link_repaired:
  assumes wf: "wf_db db" and n: "notes_tbl db = [r]" and l: "links_tbl db = [l]"
    and src: "dbl_source_id l = db_id r" and tgt: "dbl_target_id l \<noteq> db_id r"
    and b: "note_id b = dbl_target_id l" and a: "note_id a = db_id r"
    and k: "k \<in> set (links a)" "target_id k = note_id b"
  shows "validate_links (snd (update t2 (snd (create t1 db b)) a)) = Inr Map.empty"
    and "to_db_link t2 (note_id a) k \<in> set (links_tbl (snd (update t2 (snd (create t1 db b)) a)))"
proof -
  let ?db1 = "snd (create t1 db b)"
  let ?db2 = "snd (update t2 ?db1 a)"
  have fb: "find_note db (note_id b) = None"
    using tgt b by (simp add: find_note_def n)
  have fa: "find_note db (note_id a) = Some r"
    using a by (simp add: find_note_def n)
  have fa1: "find_note ?db1 (note_id a) = Some r"
    using create_found [OF fb, of t1 "note_id a"] fa a b tgt by simp
  have wf2: "wf_db ?db2"
    by (intro wf_db_update wf_db_create wf)
  have len2: "length (notes_tbl ?db2) \<le> 10000"
    by (simp add: update_notes_tbl [OF fa1] create_notes_tbl [OF fb] n)
  have ex2: "find_note ?db2 t \<noteq> None \<longleftrightarrow> find_note ?db1 t \<noteq> None" for t
    using update_found [OF fa1, of t2 t] fa1 by simp
  have "find_note ?db2 (dbl_target_id x) \<noteq> None" if "x \<in> set (links_tbl ?db2)" for x
  proof -
    from that consider
      (old) "x \<in> set (links_tbl ?db1)" "dbl_source_id x \<noteq> note_id a"
      | (new) j where "x = to_db_link t2 (note_id a) j" "find_note ?db2 (target_id j) \<noteq> None"
      by (auto simp: update_links_tbl [OF fa1])
    then show ?thesis
    proof cases
      case old
      then obtain j where "x = to_db_link t1 (note_id b) j" "find_note ?db1 (target_id j) \<noteq> None"
        using src a by (auto simp: create_links_tbl [OF fb] l)
      then show ?thesis using ex2 [of "target_id j"] by simp
    next
      case new
      then show ?thesis by simp
    qed
  qed
  then show "validate_links ?db2 = Inr Map.empty"
    using validate_links_empty_iff [OF wf2 len2] by blast
  have "find_note ?db1 (note_id b) \<noteq> None"
    using create_found [OF fb, of t1 "note_id b"] by simp
  then have "find_note ?db2 (target_id k) \<noteq> None"
    using k(2) ex2 [of "target_id k"] by simp
  then show "to_db_link t2 (note_id a) k \<in> set (links_tbl ?db2)"
    using k(1) by (auto simp: update_links_tbl [OF fa1])
qed

text \<open>
  On a store that satisfies the schema's invariants and holds at most 10000 notes, all
  notes are loaded, and \<open>validate_links\<close> returns a mapping that has an entry for a note id
  exactly when the note has a stored outgoing link whose target id is the id of no note;
  the entry is the list of those target ids, and the mapping is empty exactly when the
  target of every stored link exists.
\<close>

lemma validate_links_within_limit:
  assumes wf: "wf_db db" and len: "length (notes_tbl db) \<le> 10000"
  shows
    "\<exists>m. validate_links db = Inr m \<and>
        (\<forall>s. m s = (if dangling_targets db s \<noteq> [] then Some (dangling_targets db s) else None)) \<and>
        (m = Map.empty \<longleftrightarrow>
           (\<forall>l \<in> set (links_tbl db). find_note db (dbl_target_id l) \<noteq> None))"
proof -
  obtain m where m: "validate_links db = Inr m"
    "\<And>s. m s = (if dangling_targets db s \<noteq> [] then Some (dangling_targets db s) else None)"
    using validate_links_small [OF wf len] by blast
  have "m = Map.empty \<longleftrightarrow>
           (\<forall>l \<in> set (links_tbl db). find_note db (dbl_target_id l) \<noteq> None)"
    using validate_links_empty_iff [OF wf len] m(1) by simp
  then show ?thesis
    using m by blast
qed

lemma big_id_inj [simp]: "big_id i = big_id j \<longleftrightarrow> i = j"
  by (auto simp: big_id_def replicate_eq_replicate)

lemma big_row_id [simp]: "db_id (big_row i) = big_id i"
  by (simp add: big_row_def)

lemma big_store_sorted: "sorted (map db_updated_at (map big_row [0..<k]))"
  by (simp add: sorted_map o_def big_row_def sorted_wrt_iff_nth_less)

lemma big_store_loaded:
  assumes "10000 \<le> n"
  shows "loaded (big_store n) = rev (map big_row [n - 9999..<Suc n])"
proof -
  have "sort_key db_updated_at (map big_row [0..<Suc n]) = map big_row [0..<Suc n]"
    by (rule sort_key_id_if_sorted [OF big_store_sorted])
  then show ?thesis
    using assms
    by (simp add: loaded_def order_by_updated_desc_def big_store_def take_rev drop_map
        del: upt_Suc)
qed

lemma wf_big_store: "wf_db (big_store n)"
proof -
  have "distinct (map db_id (map big_row [0..<Suc n]))"
    by (simp add: distinct_map o_def inj_on_def del: upt_Suc)
  moreover have "find_note (big_store n) (big_id n) \<noteq> None"
    by (simp add: find_note_None_iff big_store_def image_image del: upt_Suc)
  ultimately show ?thesis
    by (auto simp: wf_db_def big_store_def LinkType_of_def NoteType_of_def big_row_def
        simp del: upt_Suc)
qed

lemma big_store_validate:
  assumes "10000 \<le> n"
  shows "\<exists>m. validate_links (big_store n) = Inr m \<and> m (big_id n) = Some [big_id 0]"
proof -
  obtain m where m: "validate_links (big_store n) = Inr m"
    "\<And>s. m s =
              (let broken = map dbl_target_id
                     (filter (\<lambda>l. dbl_target_id l \<notin> db_id ` set (loaded (big_store n)))
                        (outgoing_links (big_store n) s))
               in if s \<in> db_id ` set (loaded (big_store n)) \<and> broken \<noteq> [] then Some broken else None)"
    using validate_links_loaded [OF wf_big_store] by blast
  have ids: "db_id ` set (loaded (big_store n)) = big_id ` {n - 9999..<Suc n}"
    by (simp add: big_store_loaded [OF assms] image_image del: upt_Suc)
  have "big_id 0 \<notin> big_id ` {n - 9999..<Suc n}" and "big_id n \<in> big_id ` {n - 9999..<Suc n}"
    using assms by auto
  moreover obtain x where "outgoing_links (big_store n) (big_id n) = [x]"
    and "dbl_target_id x = big_id 0"
    by (simp add: outgoing_links_def big_store_def del: upt_Suc)
  ultimately have "m (big_id n) = Some [big_id 0]"
    by (simp add: m(2) ids)
  then show ?thesis using m(1) by blast
qed

lemma created_notes_tbls:
  "created_notes n =
     \<lparr>notes_tbl = map big_row [0..<n], tags_tbl = [], note_tags_tbl = [], links_tbl = []\<rparr>"
proof (induction n)
  case 0
  then show ?case by (simp add: created_notes_def empty_db_def)
next
  case (Suc n)
  have f: "find_note (created_notes n) (big_id n) = None"
    by (auto simp: find_note_None_iff Suc image_image)
  have r: "created_row (big_note n []) = big_row n"
    by (simp add: created_row_def big_note_def ex_note_def big_row_def)
  have "created_notes (Suc n) = snd (create ex_time (created_notes n) (big_note n []))"
    by (simp add: created_notes_def)
  also have "\<dots> = (created_notes n)\<lparr>notes_tbl := notes_tbl (created_notes n) @ [big_row n]\<rparr>"
    using f r by (simp add: create_def Let_def big_note_def ex_note_def)
  finally show ?case by (simp add: Suc)
qed

lemma big_note_fields [simp]:
  "note_id (big_note n ls) = big_id n" "tags (big_note n ls) = []" "links (big_note n ls) = ls"
  "created_row (big_note n ls) = big_row n"
  by (simp_all add: created_row_def big_note_def ex_note_def big_row_def)

lemma big_store_created:
  "snd (create ex_time (created_notes n) (big_note n [ex_link (big_id n) (big_id 0)])) =
     big_store n"
proof -
  let ?db1 = "(created_notes n)\<lparr>notes_tbl := notes_tbl (created_notes n) @ [big_row n]\<rparr>"
  have f: "find_note (created_notes n) (big_id n) = None"
    by (auto simp: find_note_None_iff created_notes_tbls image_image)
  have "big_id 0 \<in> db_id ` set (notes_tbl ?db1)"
    by (cases n) (auto simp: created_notes_tbls image_image)
  then obtain x where t: "find_note ?db1 (big_id 0) = Some x"
    using find_note_None_iff [of ?db1 "big_id 0"] by (cases "find_note ?db1 (big_id 0)") auto
  have k: "target_id (ex_link (big_id n) (big_id 0)) = big_id 0"
    by (simp add: ex_link_def)
  have "snd (create ex_time (created_notes n) (big_note n [ex_link (big_id n) (big_id 0)])) =
      ?db1\<lparr>links_tbl := links_tbl ?db1 @
        [to_db_link ex_time (big_id n) (ex_link (big_id n) (big_id 0))]\<rparr>"
    by (simp add: create_def Let_def f t k)
  then show ?thesis
    by (simp add: created_notes_tbls big_store_def to_db_link_def ex_link_def)
qed

text \<open>
  Claim C8, at a store of more than 10000 notes.  The store \<open>big_store 10000\<close> is built by
  creating 10001 notes in the order of their last update, the last one with a link to the
  first one.  The target of its only link exists, but \<open>validate_links\<close> loads the 10000
  most recently updated notes only, and lists that target among the dangling targets of
  the newest note.
\<close>

theorem C8_validate_links_beyond_limit:
  "snd (create ex_time (created_notes 10000)
          (big_note 10000 [ex_link (big_id 10000) (big_id 0)])) = big_store 10000 \<and>
   length (notes_tbl (big_store 10000)) = 10001 \<and>
   map dbl_target_id (links_tbl (big_store 10000)) = [big_id 0] \<and>
   find_note (big_store 10000) (big_id 0) \<noteq> None \<and>
   dangling_targets (big_store 10000) (big_id 10000) = [] \<and>
   (case validate_links (big_store 10000) of Inl e \<Rightarrow> None | Inr m \<Rightarrow> m (big_id 10000)) =
     Some [big_id 0]"
proof -
  have f: "find_note (big_store 10000) (big_id 0) \<noteq> None"
    by (simp add: find_note_None_iff big_store_def image_image del: upt_Suc)
  have d: "dangling_targets (big_store 10000) (big_id 10000) = []"
    using f by (simp add: dangling_targets_def outgoing_links_def big_store_def del: upt_Suc)
  have v: "(case validate_links (big_store 10000) of Inl e \<Rightarrow> None
            | Inr m \<Rightarrow> m (big_id 10000)) = Some [big_id 0]"
    using big_store_validate [of 10000] by auto
  have l: "length (notes_tbl (big_store 10000)) = 10001"
    "map dbl_target_id (links_tbl (big_store 10000)) = [big_id 0]"
    by (simp_all add: big_store_def del: upt_Suc)
  show ?thesis
    using f d v l big_store_created [of 10000] by simp
qed

section \<open>Properties of the import\<close>


lemma contains_prefix: "prefix sub s \<Longrightarrow> contains sub s"
  by (cases s) auto

lemma parse_no_id:
  assumes "file_text file = Inr doc" and "header doc ''id'' = None"
  shows "parse_note_from_markdown now file stats =
           (None, add_warning (''No ID in '' @ file_path file @ '', skipping'') stats)"
  using assms by (simp add: parse_note_from_markdown_def frontmatter_loads_def)

lemma import_no_id:
  assumes "file_text file = Inr doc" and "header doc ''id'' = None"
  shows "import_single_file now file update_existing st =
           (False, fst st,
            (snd st)\<lparr>warnings := warnings (snd st) @ [''No ID in '' @ file_path file @ '', skipping''],
                     failed := failed (snd st) + 1\<rparr>)"
  by (simp add: import_single_file_def parse_no_id [OF assms] add_warning_def)

text \<open>
  Claim C7.  For a file whose header has no id, \<open>import_single_file\<close> returns \<open>False\<close>,
  leaves the store as it was (no note is created), adds one to the failed counter and
  nothing to the imported one, and records the warning \<open>"No ID in <path>, skipping"\<close>,
  which contains \<open>"No ID"\<close>; the loop of \<open>import_directory\<close> goes on with the next file,
  and \<open>import_directory\<close> on an existing directory raises nothing.
\<close>

theorem C7_import_file_without_id:
  "(file_text f = Inr doc \<and> header doc ''id'' = None \<longrightarrow>
      (let w = ''No ID in '' @ file_path f @ '', skipping'';
           st' = (fst st, (snd st)\<lparr>warnings := warnings (snd st) @ [w],
                                    failed := failed (snd st) + 1\<rparr>)
       in import_single_file now f update_existing st = (False, st') \<and>
          contains ''No ID'' w \<and>
          notes_tbl (fst st') = notes_tbl (fst st) \<and>
          failed (snd st') = failed (snd st) + 1 \<and>
          imported (snd st') = imported (snd st) \<and>
          import_loop clock k update_existing (f # fs) st =
            import_loop clock (Suc k) update_existing fs st')) \<and>
   (dir_entries import_dir = Some entries \<and> 0 < batch_size \<longrightarrow>
      import_directory clock import_dir update_existing batch_size st =
        (None, import_loop clock 0 update_existing (md_files entries)
                 (fst st, (snd st)\<lparr>total_files := length (md_files entries)\<rparr>)))"
proof (intro conjI impI)
  assume "file_text f = Inr doc \<and> header doc ''id'' = None"
  then have a: "file_text f = Inr doc" "header doc ''id'' = None" by simp_all
  have "contains ''No ID'' (''No ID in '' @ file_path f @ '', skipping'')"
    by (rule contains_prefix) simp
  then show "let w = ''No ID in '' @ file_path f @ '', skipping'';
           st' = (fst st, (snd st)\<lparr>warnings := warnings (snd st) @ [w],
                                    failed := failed (snd st) + 1\<rparr>)
       in import_single_file now f update_existing st = (False, st') \<and>
          contains ''No ID'' w \<and>
          notes_tbl (fst st') = notes_tbl (fst st) \<and>
          failed (snd st') = failed (snd st) + 1 \<and>
          imported (snd st') = imported (snd st) \<and>
          import_loop clock k update_existing (f # fs) st =
            import_loop clock (Suc k) update_existing fs st'"
    by (simp add: Let_def import_no_id [OF a])
next
  assume "dir_entries import_dir = Some entries \<and> 0 < batch_size"
  then show "import_directory clock import_dir update_existing batch_size st =
        (None, import_loop clock 0 update_existing (md_files entries)
                 (fst st, (snd st)\<lparr>total_files := length (md_files entries)\<rparr>))"
    by (simp add: import_directory_def Let_def)
qed

lemma ex_md_files:
  "md_files [ex_file_no_id, ex_file_meta, ex_file_n2] = [ex_file_no_id, ex_file_n2]"
  by (simp add: md_files_def ex_file_no_id_def ex_file_meta_def ex_file_n2_def suffix_to_prefix)

theorem C7_witness:
  "file_text ex_file_no_id = Inr (Document
        [''title'' \<mapsto> YStr ''Note Without ID'', ''type'' \<mapsto> YStr ''fleeting'',
         ''tags'' \<mapsto> YStr ''fleeting'']
        (newline # ''Content without ID.'')) \<and>
   header (Document
        [''title'' \<mapsto> YStr ''Note Without ID'', ''type'' \<mapsto> YStr ''fleeting'',
         ''tags'' \<mapsto> YStr ''fleeting'']
        (newline # ''Content without ID.'')) ''id'' = None \<and>
   import_single_file ex_time ex_file_no_id False (empty_db, ex_stats) =
     (False, empty_db,
      ex_stats\<lparr>warnings := [''No ID in dir/note_without_id.md, skipping''], failed := 1\<rparr>) \<and>
   dir_entries ex_dir = Some [ex_file_no_id, ex_file_meta, ex_file_n2] \<and> (0::nat) < 50 \<and>
   fst (import_directory (\<lambda>k. ex_time) ex_dir False 50 (empty_db, ex_stats)) = None"
proof -
  let ?doc = "Document
        [''title'' \<mapsto> YStr ''Note Without ID'', ''type'' \<mapsto> YStr ''fleeting'',
         ''tags'' \<mapsto> YStr ''fleeting'']
        (newline # ''Content without ID.'')"
  have f: "file_text ex_file_no_id = Inr ?doc \<and> header ?doc ''id'' = None"
    by (simp add: ex_file_no_id_def)
  have d: "dir_entries ex_dir = Some [ex_file_no_id, ex_file_meta, ex_file_n2] \<and> (0::nat) < 50"
    by (simp add: ex_dir_def)
  have p: "file_path ex_file_no_id = ''dir/note_without_id.md''"
    by (simp add: ex_file_no_id_def)
  note T1 = C7_import_file_without_id [where f = ex_file_no_id and doc = "?doc"
      and st = "(empty_db, ex_stats)" and now = ex_time and update_existing = False
      and import_dir = ex_dir and entries = "[ex_file_no_id, ex_file_meta, ex_file_n2]"
      and batch_size = 50 and clock = "\<lambda>k. ex_time" and k = 0 and fs = "[ex_file_n2]"]
  have a: "import_single_file ex_time ex_file_no_id False (empty_db, ex_stats) =
     (False, empty_db,
      ex_stats\<lparr>warnings := [''No ID in dir/note_without_id.md, skipping''], failed := 1\<rparr>)"
    using T1 f by (simp add: Let_def p ex_stats_def)
  have b: "fst (import_directory (\<lambda>k. ex_time) ex_dir False 50 (empty_db, ex_stats)) = None"
    using T1 d by simp
  show ?thesis using f d a b by simp
qed

section \<open>Properties of the timestamps\<close>


lemma length_pad [simp]: "length (pad w n) = w"
  by (induction w arbitrary: n) auto

lemma of_char_digit_char: "d < 10 \<Longrightarrow> (of_char (digit_char d) :: nat) = 48 + d"
  by (simp add: digit_char_def)

lemma is_digit_digit_char: "d < 10 \<Longrightarrow> is_digit (digit_char d)"
  by (simp add: is_digit_def of_char_digit_char)

lemma digits_pad: "list_all is_digit (pad w n)"
  by (induction w arbitrary: n) (auto simp: is_digit_digit_char)

lemma digits_value_snoc:
  "digits_value (xs @ [c]) = 10 * digits_value xs + (of_char c - 48)"
  by (simp add: digits_value_def)

lemma digits_value_pad: "digits_value (pad w n) = n mod 10 ^ w"
proof (induction w arbitrary: n)
  case 0
  then show ?case by (simp add: digits_value_def)
next
  case (Suc w)
  have "digits_value (pad (Suc w) n) = 10 * (n div 10 mod 10 ^ w) + n mod 10"
    by (simp add: digits_value_snoc Suc.IH of_char_digit_char)
  also have "\<dots> = n mod 10 ^ Suc w"
    by (simp add: mod_mult2_eq)
  finally show ?case .
qed

lemma read_num_pad: "read_num w (pad w n @ r) = Some (n mod 10 ^ w, r)"
  by (simp add: read_num_def digits_pad digits_value_pad)

lemma read_num_pad_end: "read_num w (pad w n) = Some (n mod 10 ^ w, [])"
  using read_num_pad [of w n "[]"] by simp

lemma read_char_Cons: "read_char c (c # r) = Some r"
  by (simp add: read_char_def)

lemma days_in_month_le: "days_in_month y mo \<le> 31"
  by (simp add: days_in_month_def)

lemma fromisoformat_isoformat:
  assumes "valid_datetime d"
  shows "fromisoformat (isoformat d) = Some d"
proof -
  obtain y mo dd h mi s us where d: "d = (y, mo, dd, h, mi, s, us)"
    by (cases d) auto
  have b: "y mod 10000 = y" "mo mod 100 = mo" "dd mod 100 = dd" "h mod 100 = h"
    "mi mod 100 = mi" "s mod 100 = s" "us mod 1000000 = us"
    using assms days_in_month_le [of y mo] by (auto simp: d)
  show ?thesis
  proof (cases "us = 0")
    case True
    then show ?thesis
      using assms
      by (simp add: d fromisoformat_def read_num_pad read_num_pad_end read_char_Cons b)
  next
    case False
    then show ?thesis
      using assms
      by (simp add: d fromisoformat_def read_num_pad read_num_pad_end read_char_Cons b)
  qed
qed

lemma isoformat_nonempty: "isoformat d \<noteq> []"
proof -
  obtain y mo dd h mi s us where d: "d = (y, mo, dd, h, mi, s, us)"
    by (cases d) auto
  have "length (isoformat d) \<noteq> 0"
    by (simp add: d)
  then show ?thesis by fastforce
qed

section \<open>Properties of the string operations\<close>


subsection \<open>Substrings\<close>




subsection \<open>White space\<close>

lemma lstrip_space_left: "\<forall>c \<in> set w. is_space c \<Longrightarrow> lstrip (w @ s) = lstrip s"
  by (induction w) (auto simp: lstrip_def)

lemma rstrip_space_right: "\<forall>c \<in> set w. is_space c \<Longrightarrow> rstrip (s @ w) = rstrip s"
  using lstrip_space_left [of "rev w" "rev s"] by (simp add: rstrip_def lstrip_def)

lemma lstrip_decomp: "\<exists>w. (\<forall>c \<in> set w. is_space c) \<and> s = w @ lstrip s"
  unfolding lstrip_def
  by (rule exI [of _ "takeWhile is_space s"]) (auto dest: set_takeWhileD)

lemma rstrip_decomp: "\<exists>w. (\<forall>c \<in> set w. is_space c) \<and> s = rstrip s @ w"
proof -
  obtain w where w: "\<forall>c \<in> set w. is_space c" "rev s = w @ lstrip (rev s)"
    using lstrip_decomp by blast
  have "s = rev (rev s)" by simp
  also have "\<dots> = rstrip s @ rev w"
    by (subst w(2)) (simp add: rstrip_def lstrip_def)
  finally show ?thesis using w(1) by (intro exI [of _ "rev w"]) auto
qed

lemma strip_space_left: "\<forall>c \<in> set w. is_space c \<Longrightarrow> strip (w @ s) = strip s"
  by (simp add: strip_def lstrip_space_left)

lemma strip_space_right:
  assumes "\<forall>c \<in> set w. is_space c"
  shows "strip (s @ w) = strip s"
proof (cases "\<forall>c \<in> set s. is_space c")
  case True
  then have "lstrip (s @ w) = []" "lstrip s = []"
    using assms by (auto simp: lstrip_def)
  then show ?thesis by (simp add: strip_def)
next
  case False
  then have "lstrip (s @ w) = lstrip s @ w"
    by (auto simp: lstrip_def dropWhile_append)
  then show ?thesis
    by (simp add: strip_def rstrip_space_right [OF assms])
qed

lemma strip_decomp:
  "\<exists>w1 w2. (\<forall>c \<in> set w1. is_space c) \<and> (\<forall>c \<in> set w2. is_space c) \<and> s = w1 @ strip s @ w2"
proof -
  obtain w1 where w1: "\<forall>c \<in> set w1. is_space c" "s = w1 @ lstrip s"
    using lstrip_decomp by blast
  obtain w2 where w2: "\<forall>c \<in> set w2. is_space c" "lstrip s = rstrip (lstrip s) @ w2"
    using rstrip_decomp by blast
  have "s = w1 @ strip s @ w2"
    using w1(2) w2(2) by (simp add: strip_def)
  then show ?thesis using w1(1) w2(1) by blast
qed

lemma strip_rstrip [simp]: "strip (rstrip s) = strip s"
proof -
  obtain w where w: "\<forall>c \<in> set w. is_space c" "s = rstrip s @ w"
    using rstrip_decomp by blast
  have "strip s = strip (rstrip s @ w)" using w(2) by simp
  then show ?thesis by (simp add: strip_space_right [OF w(1)])
qed

lemma strip_strip [simp]: "strip (strip s) = strip s"
proof -
  obtain w1 w2 where w: "\<forall>c \<in> set w1. is_space c" "\<forall>c \<in> set w2. is_space c"
    "s = w1 @ strip s @ w2"
    using strip_decomp by blast
  have "strip s = strip (w1 @ strip s @ w2)" using w(3) by simp
  also have "\<dots> = strip (strip s @ w2)" by (rule strip_space_left [OF w(1)])
  also have "\<dots> = strip (strip s)" by (rule strip_space_right [OF w(2)])
  finally show ?thesis by simp
qed

lemma strip_Nil [simp]: "strip [] = []"
  by (simp add: strip_def lstrip_def rstrip_def)

lemma strip_all_space: "\<forall>c \<in> set w. is_space c \<Longrightarrow> strip w = []"
  using strip_space_left [of w "[]"] by simp


lemma lstrip_nonspace: "\<not> is_space x \<Longrightarrow> lstrip (x # s) = x # s"
  by (simp add: lstrip_def)

lemma rstrip_nonspace: "\<not> is_space x \<Longrightarrow> rstrip (s @ [x]) = s @ [x]"
  by (simp add: rstrip_def)


subsection \<open>Splitting into lines\<close>

lemma split_char_ne [simp]: "split_char c s \<noteq> []"
  by (induction s) auto

lemma split_char_append_sep:
  "split_char c (a @ c # b) = split_char c a @ split_char c b"
proof (induction a)
  case Nil
  then show ?case by simp
next
  case (Cons x a)
  then show ?case by (cases "split_char c a") auto
qed

lemma split_char_nosep: "c \<notin> set a \<Longrightarrow> split_char c a = [a]"
  by (induction a) auto

lemma split_char_append:
  "split_char c (a @ b) =
     butlast (split_char c a) @ [last (split_char c a) @ hd (split_char c b)] @ tl (split_char c b)"
proof (induction a)
  case Nil
  then show ?case by simp
next
  case (Cons x a)
  obtain h t where ht: "split_char c a = h # t"
    by (cases "split_char c a") auto
  show ?case
  proof (cases "x = c")
    case True
    then show ?thesis using Cons ht by simp
  next
    case False
    then show ?thesis using Cons ht by (cases t) auto
  qed
qed

lemma split_char_subset: "l \<in> set (split_char c s) \<Longrightarrow> set l \<subseteq> set s"
proof (induction s arbitrary: l)
  case Nil
  then show ?case by simp
next
  case (Cons x s)
  obtain h t where ht: "split_char c s = h # t"
    by (cases "split_char c s") auto
  have "set h \<subseteq> set s" "\<And>l. l \<in> set t \<Longrightarrow> set l \<subseteq> set s"
    using Cons.IH ht by auto
  then show ?case using Cons.prems ht by (auto split: if_splits)
qed



lemma map_eq_replicate: "\<forall>x \<in> set xs. f x = v \<Longrightarrow> map f xs = replicate (length xs) v"
  by (induction xs) auto

lemma map_strip_lines_left:
  assumes "\<forall>ch \<in> set w. is_space ch"
  shows "\<exists>k. map strip (split_char c (w @ t)) = replicate k [] @ map strip (split_char c t)"
proof -
  have sp: "\<forall>ch \<in> set l. is_space ch" if "l \<in> set (split_char c w)" for l
    using split_char_subset [OF that] assms by auto
  have "last (split_char c w) \<in> set (split_char c w)" by simp
  then have 1: "strip (last (split_char c w) @ hd (split_char c t)) = strip (hd (split_char c t))"
    using sp by (intro strip_space_left) blast
  have "\<forall>l \<in> set (butlast (split_char c w)). strip l = []"
    using sp by (auto dest!: in_set_butlastD intro: strip_all_space)
  then have 2: "map strip (butlast (split_char c w)) =
      replicate (length (butlast (split_char c w))) []"
    by (rule map_eq_replicate)
  have "map strip (split_char c (w @ t)) =
      map strip (butlast (split_char c w)) @
      [strip (hd (split_char c t))] @ map strip (tl (split_char c t))"
    by (simp add: split_char_append 1)
  also have "[strip (hd (split_char c t))] @ map strip (tl (split_char c t)) =
      map strip (split_char c t)"
    by (cases "split_char c t") auto
  finally show ?thesis using 2 by auto
qed

lemma map_strip_lines_right:
  assumes "\<forall>ch \<in> set w. is_space ch"
  shows "\<exists>k. map strip (split_char c (t @ w)) = map strip (split_char c t) @ replicate k []"
proof -
  have sp: "\<forall>ch \<in> set l. is_space ch" if "l \<in> set (split_char c w)" for l
    using split_char_subset [OF that] assms by auto
  have "hd (split_char c w) \<in> set (split_char c w)" by simp
  then have 1: "strip (last (split_char c t) @ hd (split_char c w)) = strip (last (split_char c t))"
    using sp by (intro strip_space_right) blast
  have "\<forall>l \<in> set (tl (split_char c w)). strip l = []"
    using sp by (auto dest!: list.set_sel(2) [rotated] intro: strip_all_space)
  then have 2: "map strip (tl (split_char c w)) = replicate (length (tl (split_char c w))) []"
    by (rule map_eq_replicate)
  have "map strip (split_char c (t @ w)) =
      (map strip (butlast (split_char c t)) @ [strip (last (split_char c t))]) @
      map strip (tl (split_char c w))"
    by (simp add: split_char_append 1)
  also have "map strip (butlast (split_char c t)) @ [strip (last (split_char c t))] =
      map strip (split_char c t)"
    by (metis append_butlast_last_id list.simps(8,9) map_append split_char_ne)
  finally show ?thesis using 2 by auto
qed

lemma map_strip_lines_strip:
  "\<exists>k1 k2. map strip (split_char c s) =
      replicate k1 [] @ map strip (split_char c (strip s)) @ replicate k2 []"
proof -
  obtain w1 w2 where w: "\<forall>ch \<in> set w1. is_space ch" "\<forall>ch \<in> set w2. is_space ch"
    "s = w1 @ strip s @ w2"
    using strip_decomp by blast
  obtain k1 where k1: "map strip (split_char c (w1 @ strip s @ w2)) =
      replicate k1 [] @ map strip (split_char c (strip s @ w2))"
    using map_strip_lines_left [OF w(1)] by blast
  obtain k2 where k2: "map strip (split_char c (strip s @ w2)) =
      map strip (split_char c (strip s)) @ replicate k2 []"
    using map_strip_lines_right [OF w(2)] by blast
  have "map strip (split_char c s) = map strip (split_char c (w1 @ strip s @ w2))"
    using w(3) by simp
  then show ?thesis using k1 k2 by auto
qed

subsection \<open>The scan for links\<close>

lemma loop_cong:
  "map strip ls = map strip ls' \<Longrightarrow>
   extract_links_loop now src b ls = extract_links_loop now src b ls'"
proof (induction ls arbitrary: ls' b)
  case Nil
  then show ?case by simp
next
  case (Cons l ls)
  then obtain l' rest where ls': "ls' = l' # rest" "strip l' = strip l"
    "map strip ls = map strip rest"
    by (cases ls') auto
  have ih: "extract_links_loop now src b' ls = extract_links_loop now src b' rest" for b'
    using Cons.IH [OF ls'(3)] .
  show ?case
    by (simp add: ls'(1,2) Let_def ih split: option.splits)
qed

lemma loop_blank:
  "strip l = [] \<Longrightarrow>
   extract_links_loop now src b (l # ls) = extract_links_loop now src b ls"
  by (simp add: Let_def)

lemma loop_blanks_left:
  "extract_links_loop now src b (replicate k [] @ ls) = extract_links_loop now src b ls"
  by (induction k) (simp_all add: loop_blank)

lemma loop_blanks_only: "extract_links_loop now src b (replicate k []) = []"
  using loop_blanks_left [of now src b k "[]"] by simp

lemma loop_blanks_right:
  "extract_links_loop now src b (ls @ replicate k []) = extract_links_loop now src b ls"
proof (induction ls arbitrary: b)
  case Nil
  then show ?case by (simp add: loop_blanks_only)
next
  case (Cons l ls)
  then show ?case by (simp add: Let_def split: option.splits)
qed

lemma extract_links_strip:
  "extract_links_from_content now src (strip s) = extract_links_from_content now src s"
proof -
  obtain k1 k2 where k: "map strip (split_char newline s) =
      replicate k1 [] @ map strip (split_char newline (strip s)) @ replicate k2 []"
    using map_strip_lines_strip by blast
  have "map strip (split_char newline s) =
      map strip (replicate k1 [] @ split_char newline (strip s) @ replicate k2 [])"
    by (simp add: k)
  then have "extract_links_loop now src False (split_char newline s) =
      extract_links_loop now src False
        (replicate k1 [] @ split_char newline (strip s) @ replicate k2 [])"
    by (rule loop_cong)
  then show ?thesis
    by (simp add: extract_links_from_content_def loop_blanks_left loop_blanks_right)
qed




subsection \<open>The lines of links\<close>



lemma strip_id:
  assumes "s \<noteq> []" and "\<not> is_space (hd s)" and "\<not> is_space (last s)"
  shows "strip s = s"
proof -
  have "lstrip s = s" using assms(1,2) by (cases s) (auto simp: lstrip_def)
  moreover have "rstrip s = s"
    using assms(1,3) rstrip_nonspace [of "last s" "butlast s"] by simp
  ultimately show ?thesis by (simp add: strip_def)
qed


lemma space_chars [simp]: "is_space CHR '' ''" "is_space newline"
  "\<not> is_space CHR ''-''" "\<not> is_space CHR '']''" "\<not> is_space CHR ''#''" "\<not> is_space CHR ''s''"
  "\<not> is_space CHR ''e''" "\<not> is_space CHR ''t''"
  by (simp_all add: is_space_def newline_def)










lemma split_lines_concat:
  "c \<notin> set x \<Longrightarrow> \<forall>l \<in> set ys. c \<notin> set l \<Longrightarrow>
   split_char c (x @ concat (map (\<lambda>y. c # y) ys)) = x # ys"
proof (induction ys arbitrary: x)
  case Nil
  then show ?case by (simp add: split_char_nosep)
next
  case (Cons y ys)
  have "split_char c (x @ c # (y @ concat (map (\<lambda>y. c # y) ys))) =
      split_char c x @ split_char c (y @ concat (map (\<lambda>y. c # y) ys))"
    by (rule split_char_append_sep)
  then show ?case using Cons by (simp add: split_char_nosep)
qed



section \<open>Properties of the text format\<close>

lemma join_sep_Cons: "join (c # sep) (x # xs) = x @ concat (map (\<lambda>y. c # sep @ y) xs)"
  by (induction xs arbitrary: x) auto

lemma split_join:
  assumes "\<forall>x \<in> set (x # xs). c \<notin> set x" and "c \<notin> set sep"
  shows "split_char c (join (c # sep) (x # xs)) = x # map (\<lambda>y. sep @ y) xs"
proof -
  have "join (c # sep) (x # xs) = x @ concat (map (\<lambda>y. c # y) (map (\<lambda>y. sep @ y) xs))"
    by (simp add: join_sep_Cons comp_def)
  moreover have "split_char c (x @ concat (map (\<lambda>y. c # y) (map (\<lambda>y. sep @ y) xs))) =
      x # map (\<lambda>y. sep @ y) xs"
    using assms by (intro split_lines_concat) auto
  ultimately show ?thesis by simp
qed

lemma tag_names_of_join:
  assumes "list_all encodable_tag ts"
  shows "tag_names_of (Some (YStr (join '', '' (map name ts)))) = map name ts"
proof (cases ts)
  case Nil
  then show ?thesis by (simp add: tag_names_of_def)
next
  case (Cons t ts')
  have p: "\<forall>x \<in> set (map name ts). x \<noteq> [] \<and> CHR '','' \<notin> set x \<and> strip x = x"
    using assms by (auto simp: list_all_iff encodable_tag_def)
  have "split_char CHR '','' (join (CHR '','' # '' '') (name t # map name ts')) =
      name t # map (\<lambda>y. '' '' @ y) (map name ts')"
    using p Cons by (intro split_join) auto
  then have s: "split_char CHR '','' (join '', '' (map name ts)) =
      name t # map (\<lambda>y. '' '' @ y) (map name ts')"
    by (simp add: Cons)
  have st: "strip ('' '' @ y) = strip y" for y
    by (rule strip_space_left) simp
  have "map (\<lambda>y. strip ('' '' @ y)) (map name ts') = map name ts'"
    using p Cons by (intro map_idI) (auto simp: st simp del: append.simps)
  then have m: "map strip (name t # map (\<lambda>y. '' '' @ y) (map name ts')) = map name ts"
    using p Cons by (simp add: comp_def del: append.simps)
  have f: "filter (\<lambda>t. t \<noteq> []) (map name ts) = map name ts"
    using p by (simp add: filter_id_conv)
  have "tag_names_of (Some (YStr (join '', '' (map name ts)))) =
      filter (\<lambda>t. t \<noteq> []) (map strip (split_char CHR '','' (join '', '' (map name ts))))"
    by (simp add: tag_names_of_def)
  also have "\<dots> = map name ts"
    unfolding s m f ..
  finally show ?thesis .
qed

lemma map_Tag_name [simp]: "map (Tag \<circ> name) ts = ts"
  by (induction ts) auto

lemma strip_dumps_body [simp]: "strip (newline # c @ [newline]) = strip c"
proof -
  have "strip (newline # c @ [newline]) = strip ([newline] @ (c @ [newline]))" by simp
  also have "\<dots> = strip (c @ [newline])" by (rule strip_space_left) simp
  also have "\<dots> = strip c" by (rule strip_space_right) simp
  finally show ?thesis .
qed

lemma extract_dumps_body [simp]:
  "extract_links_from_content now src (newline # c @ [newline]) =
     extract_links_from_content now src c"
  using extract_links_strip [of now src "newline # c @ [newline]"]
    extract_links_strip [of now src c]
  by simp

lemma export_metadata_keys:
  "export_metadata n ''id'' = Some (YStr (note_id n))"
  "export_metadata n ''title'' = Some (YStr (title n))"
  "export_metadata n ''type'' = Some (YStr (NoteType_value (note_type n)))"
  "export_metadata n ''tags'' = Some (YStr (join '', '' (map name (tags n))))"
  "export_metadata n ''created'' = Some (YStr (isoformat (created_at n)))"
  "export_metadata n ''updated'' = Some (YStr (isoformat (updated_at n)))"
  by (simp_all add: export_metadata_def)

lemma parse_timestamp_isoformat:
  "valid_datetime d \<Longrightarrow> parse_timestamp (Some (YStr (isoformat d))) dflt = Inr d"
  by (simp add: parse_timestamp_def isoformat_nonempty fromisoformat_isoformat)

text \<open>The note that the importer reads from the text that the exporter writes for a note.\<close>

lemma parse_exported_header:
  assumes "note_id n \<noteq> []" and "valid_datetime (created_at n)"
    and "valid_datetime (updated_at n)"
  shows "parse_note_from_markdown now (exported_file export_dir t n) stats =
     (Some \<lparr>note_id = note_id n, title = title n,
             content = strip (join [newline] (content_parts n)),
             note_type = note_type n,
             tags = map Tag (tag_names_of (Some (YStr (join '', '' (map name (tags n)))))),
             links = extract_links_from_content now (note_id n)
                       (join [newline] (content_parts n)),
             created_at = created_at n, updated_at = updated_at n,
             metadata = extra_metadata_of (export_metadata n)\<rparr>, stats)"
  by (simp add: parse_note_from_markdown_def exported_file_def export_note_to_markdown_def
      frontmatter_dumps_def frontmatter_loads_def export_metadata_keys Let_def assms(1)
      extract_links_strip parse_note_type_def
      parse_timestamp_isoformat [OF assms(2)] parse_timestamp_isoformat [OF assms(3)]
      build_note_def)

lemma parse_exported:
  assumes "encodable_header n"
  shows "parse_note_from_markdown now (exported_file export_dir t n) stats =
     (Some \<lparr>note_id = note_id n, title = title n,
             content = strip (join [newline] (content_parts n)),
             note_type = note_type n, tags = tags n,
             links = extract_links_from_content now (note_id n)
                       (join [newline] (content_parts n)),
             created_at = created_at n, updated_at = updated_at n,
             metadata = extra_metadata_of (export_metadata n)\<rparr>, stats)"
proof -
  have h: "note_id n \<noteq> []" "valid_datetime (created_at n)" "valid_datetime (updated_at n)"
    "list_all encodable_tag (tags n)"
    using assms by (simp_all add: encodable_header_def)
  show ?thesis
    by (simp add: parse_exported_header [OF h(1-3)] tag_names_of_join [OF h(4)])
qed

lemma parse_exported_no_id:
  assumes "note_id n = []"
  shows "parse_note_from_markdown now (exported_file export_dir t n) stats =
     (None, add_warning (''No ID in '' @ export_dir @ ''/.md, skipping'') stats)"
  by (simp add: parse_note_from_markdown_def exported_file_def export_note_to_markdown_def
      frontmatter_dumps_def frontmatter_loads_def export_metadata_keys Let_def assms)

lemma valid_ex_time [simp]: "valid_datetime ex_time"
  by (simp add: ex_time_def days_in_month_def)

lemma is_space_chars [simp]:
  "\<not> is_space CHR ''a''" "\<not> is_space CHR ''b''" "\<not> is_space CHR ''n''"
  "\<not> is_space CHR ''2''" "\<not> is_space CHR ''C''" "\<not> is_space CHR ''t''"
  "\<not> is_space CHR ''-''" "\<not> is_space CHR ''#''" "\<not> is_space CHR '']''"
  "\<not> is_space CHR ''s''" "\<not> is_space CHR ''e''" "\<not> is_space CHR ''r''"
  by (simp_all add: is_space_def)



lemma link_view_decoded [simp]: "link_view (decoded_link now src l) = link_view l"
  by (simp add: link_view_def decoded_link_def description_text_def)





subsection \<open>Encoding the decoded note\<close>









section \<open>The timestamps of the stored notes\<close>

lemma find_note_mem: "find_note db i = Some r \<Longrightarrow> r \<in> set (notes_tbl db)"
  by (auto simp: find_note_def find_Some_iff)

lemma read_found:
  assumes "wf_db db" and "find_note db i = Some r"
  shows "\<exists>n. read db i = Inr (Some n)"
  using db_note_to_note_defined [OF assms(1) find_note_mem [OF assms(2)]] assms(2)
  by (auto simp: read_def)

lemma import_existing:
  assumes wf: "wf_db db"
    and p: "parse_note_from_markdown now f stats = (Some parsed, stats1)"
    and f: "find_note db (note_id parsed) = Some r"
  shows "import_single_file now f True (db, stats) =
           (True, snd (update now db parsed), stats1\<lparr>updated := updated stats1 + 1\<rparr>)"
proof -
  obtain e where e: "read db (note_id parsed) = Inr (Some e)"
    using read_found [OF wf f] by blast
  obtain n where n: "fst (update now db parsed) = Inr n"
    using update_read [OF f] by blast
  then have u: "update now db parsed = (Inr n, snd (update now db parsed))"
    by (metis prod.collapse)
  show ?thesis
    unfolding import_single_file_def
    by (simp add: p e) (simp add: u [symmetric] split: prod.splits sum.splits, use n in auto)
qed

text \<open>
  Claim C9.  In a store that satisfies the schema's invariants, \<open>update\<close> of a note with an
  existing id succeeds and leaves a row whose \<open>updated_at\<close> is the clock reading of the
  call, whatever \<open>updated_at\<close> the supplied note has, and whose \<open>created_at\<close> is the one the
  row had; the note it returns, which is the note that \<open>read\<close> returns afterwards, shows the
  same two timestamps.  \<open>create\<close> of a note with a fresh id succeeds and leaves a row with
  the \<open>created_at\<close> and the \<open>updated_at\<close> of the supplied note.  So importing a file whose
  note is in the store already, with \<open>update_existing\<close>, is an \<open>update\<close> with the note read
  from the file: the row's \<open>updated_at\<close> is the clock reading of the import and not the
  timestamp of the file.
\<close>

theorem C9_update_sets_updated_at_now:
  assumes wf: "wf_db db"
  shows
  "(find_note db (note_id item) = Some r \<longrightarrow>
      (\<exists>n r'. fst (update now db item) = Inr n \<and>
            read (snd (update now db item)) (note_id item) = Inr (Some n) \<and>
            find_note (snd (update now db item)) (note_id item) = Some r' \<and>
            db_updated_at r' = now \<and> db_created_at r' = db_created_at r \<and>
            updated_at n = now \<and> created_at n = db_created_at r)) \<and>
   (find_note db (note_id item') = None \<longrightarrow>
      (\<exists>n r'. fst (create now db item') = Inr n \<and>
            read (snd (create now db item')) (note_id item') = Inr (Some n) \<and>
            find_note (snd (create now db item')) (note_id item') = Some r' \<and>
            db_created_at r' = created_at item' \<and> db_updated_at r' = updated_at item' \<and>
            created_at n = created_at item' \<and> updated_at n = updated_at item')) \<and>
   (parse_note_from_markdown now f stats = (Some parsed, stats1) \<and>
    find_note db (note_id parsed) = Some r0 \<longrightarrow>
      import_single_file now f True (db, stats) =
        (True, snd (update now db parsed), stats1\<lparr>updated := updated stats1 + 1\<rparr>) \<and>
      (\<exists>r'. find_note (snd (update now db parsed)) (note_id parsed) = Some r' \<and>
            db_updated_at r' = now \<and> db_created_at r' = db_created_at r0))"
proof (intro conjI impI)
  assume f: "find_note db (note_id item) = Some r"
  obtain n where n: "fst (update now db item) = Inr n"
    "read (snd (update now db item)) (note_id item) = Inr (Some n)"
    using update_read [OF f] by blast
  have r': "find_note (snd (update now db item)) (note_id item) = Some (updated_row now item r)"
    using update_found [OF f, of now "note_id item"] by simp
  have "db_note_to_note (snd (update now db item)) (updated_row now item r) = Inr n"
    using update_result [OF f] n(1) by simp
  from db_note_to_note_fields [OF this]
  have "updated_at n = now" "created_at n = db_created_at r"
    by (simp_all add: updated_row_def)
  then show "\<exists>n r'. fst (update now db item) = Inr n \<and>
            read (snd (update now db item)) (note_id item) = Inr (Some n) \<and>
            find_note (snd (update now db item)) (note_id item) = Some r' \<and>
            db_updated_at r' = now \<and> db_created_at r' = db_created_at r \<and>
            updated_at n = now \<and> created_at n = db_created_at r"
    using n r' by (simp add: updated_row_def)
next
  assume f: "find_note db (note_id item') = None"
  obtain n where n: "fst (create now db item') = Inr n"
    "read (snd (create now db item')) (note_id item') = Inr (Some n)"
    using create_read [OF wf f] by blast
  have r': "find_note (snd (create now db item')) (note_id item') = Some (created_row item')"
    using create_found [OF f, of now "note_id item'"] by simp
  have "db_note_to_note (snd (create now db item')) (created_row item') = Inr n"
    using create_result [OF f] n(1) by simp
  from db_note_to_note_fields [OF this]
  have "created_at n = created_at item'" "updated_at n = updated_at item'"
    by (simp_all add: created_row_def)
  then show "\<exists>n r'. fst (create now db item') = Inr n \<and>
            read (snd (create now db item')) (note_id item') = Inr (Some n) \<and>
            find_note (snd (create now db item')) (note_id item') = Some r' \<and>
            db_created_at r' = created_at item' \<and> db_updated_at r' = updated_at item' \<and>
            created_at n = created_at item' \<and> updated_at n = updated_at item'"
    using n r' by (simp add: created_row_def)
next
  assume a: "parse_note_from_markdown now f stats = (Some parsed, stats1) \<and>
    find_note db (note_id parsed) = Some r0"
  then show "import_single_file now f True (db, stats) =
        (True, snd (update now db parsed), stats1\<lparr>updated := updated stats1 + 1\<rparr>)"
    using import_existing [OF wf] by blast
  show "\<exists>r'. find_note (snd (update now db parsed)) (note_id parsed) = Some r' \<and>
            db_updated_at r' = now \<and> db_created_at r' = db_created_at r0"
    using a update_found [of db parsed r0 now "note_id parsed"] by (simp add: updated_row_def)
qed

theorem C9_witness:
  "wf_db ex_db \<and> find_note ex_db ''n1'' = Some (created_row (ex_note ''n1'' [])) \<and>
   updated_at (ex_note_edited ''n1'') = ex_mid \<and>
   map_option (\<lambda>r. (db_created_at r, db_updated_at r))
     (find_note (snd (update ex_later ex_db (ex_note_edited ''n1''))) ''n1'') =
     Some (ex_time, ex_later) \<and>
   find_note ex_db ''n2'' = None \<and>
   map_option (\<lambda>r. (db_created_at r, db_updated_at r))
     (find_note (snd (create ex_later ex_db (ex_note_edited ''n2''))) ''n2'') =
     Some (ex_time, ex_mid) \<and>
   map_option updated_at
     (fst (parse_note_from_markdown ex_later
        (exported_file ''export'' ex_time (ex_note_edited ''n1'')) ex_stats)) = Some ex_mid \<and>
   map_option (\<lambda>r. (db_created_at r, db_updated_at r))
     (find_note (fst (snd (import_single_file ex_later
        (exported_file ''export'' ex_time (ex_note_edited ''n1'')) True (ex_db, ex_stats))))
        ''n1'') = Some (ex_time, ex_later)"
proof -
  let ?n = "ex_note_edited ''n1''"
  let ?f = "exported_file ''export'' ex_time ?n"
  let ?r = "created_row (ex_note ''n1'' [])"
  have v: "valid_datetime ex_mid" by (simp add: ex_mid_def days_in_month_def)
  have h: "encodable_header ?n"
    by (simp add: encodable_header_def ex_note_edited_def ex_note_def v)
  define P where "P =
     \<lparr>note_id = note_id ?n, title = title ?n,
      content = strip (join [newline] (content_parts ?n)),
      note_type = note_type ?n, tags = tags ?n,
      links = extract_links_from_content ex_later (note_id ?n)
                (join [newline] (content_parts ?n)),
      created_at = created_at ?n, updated_at = updated_at ?n,
      metadata = extra_metadata_of (export_metadata ?n)\<rparr>"
  have pe: "parse_note_from_markdown ex_later ?f ex_stats = (Some P, ex_stats)"
    unfolding P_def by (rule parse_exported [OF h])
  have i: "note_id P = ''n1''" "updated_at P = ex_mid" "note_id ?n = ''n1''"
    "updated_at ?n = ex_mid" "note_id (ex_note_edited ''n2'') = ''n2''"
    "created_at (ex_note_edited ''n2'') = ex_time" "updated_at (ex_note_edited ''n2'') = ex_mid"
    by (simp_all add: P_def ex_note_edited_def ex_note_def)
  have c: "db_created_at ?r = ex_time"
    by (simp add: created_row_def ex_note_def)
  note T = C9_update_sets_updated_at_now [OF wf_ex_db, where item = ?n and r = ?r
      and now = ex_later and item' = "ex_note_edited ''n2''" and f = ?f and stats = ex_stats
      and parsed = P and ?stats1.0 = ex_stats and ?r0.0 = ?r]
  show ?thesis
    using T wf_ex_db by (auto simp: find_note_ex_db pe i c)
qed

section \<open>Properties of the merge\<close>

lemma py_max_cases:
  "(py_max key b xs = b \<and> (\<forall>x \<in> set xs. key x \<le> key b)) \<or>
   (\<exists>ys x zs. xs = ys @ x # zs \<and> py_max key b xs = x \<and> key b < key x \<and>
      (\<forall>y \<in> set ys. key y < key x) \<and> (\<forall>z \<in> set zs. key z \<le> key x))"
proof (induction xs arbitrary: b)
  case Nil
  then show ?case by simp
next
  case (Cons a xs)
  let ?b = "if key b < key a then a else b"
  from Cons [of ?b] consider
    (same) "py_max key ?b xs = ?b" "\<forall>x \<in> set xs. key x \<le> key ?b"
    | (later) ys x zs where "xs = ys @ x # zs" "py_max key ?b xs = x" "key ?b < key x"
      "\<forall>y \<in> set ys. key y < key x" "\<forall>z \<in> set zs. key z \<le> key x"
    by blast
  then show ?case
  proof cases
    case same
    show ?thesis
    proof (cases "key b < key a")
      case True
      then have "a # xs = [] @ a # xs \<and> py_max key b (a # xs) = a \<and> key b < key a \<and>
          (\<forall>y \<in> set []. key y < key a) \<and> (\<forall>z \<in> set xs. key z \<le> key a)"
        using same by simp
      then show ?thesis by blast
    next
      case False
      then show ?thesis using same by auto
    qed
  next
    case later
    have "a # xs = (a # ys) @ x # zs" using later(1) by simp
    moreover have "py_max key b (a # xs) = x" using later(2) by simp
    moreover have "key b < key x" using later(3) by (auto split: if_splits)
    moreover have "\<forall>y \<in> set (a # ys). key y < key x"
      using later(3,4) by (auto split: if_splits)
    ultimately show ?thesis using later(5) by blast
  qed
qed

lemma py_min_cases:
  "(py_min key b xs = b \<and> (\<forall>x \<in> set xs. key b \<le> key x)) \<or>
   (\<exists>ys x zs. xs = ys @ x # zs \<and> py_min key b xs = x \<and> key x < key b \<and>
      (\<forall>y \<in> set ys. key x < key y) \<and> (\<forall>z \<in> set zs. key x \<le> key z))"
proof (induction xs arbitrary: b)
  case Nil
  then show ?case by simp
next
  case (Cons a xs)
  let ?b = "if key a < key b then a else b"
  from Cons [of ?b] consider
    (same) "py_min key ?b xs = ?b" "\<forall>x \<in> set xs. key ?b \<le> key x"
    | (later) ys x zs where "xs = ys @ x # zs" "py_min key ?b xs = x" "key x < key ?b"
      "\<forall>y \<in> set ys. key x < key y" "\<forall>z \<in> set zs. key x \<le> key z"
    by blast
  then show ?case
  proof cases
    case same
    show ?thesis
    proof (cases "key a < key b")
      case True
      then have "a # xs = [] @ a # xs \<and> py_min key b (a # xs) = a \<and> key a < key b \<and>
          (\<forall>y \<in> set []. key a < key y) \<and> (\<forall>z \<in> set xs. key a \<le> key z)"
        using same by simp
      then show ?thesis by blast
    next
      case False
      then show ?thesis using same by auto
    qed
  next
    case later
    have "a # xs = (a # ys) @ x # zs" using later(1) by simp
    moreover have "py_min key b (a # xs) = x" using later(2) by simp
    moreover have "key x < key b" using later(3) by (auto split: if_splits)
    moreover have "\<forall>y \<in> set (a # ys). key x < key y"
      using later(3,4) by (auto split: if_splits)
    ultimately show ?thesis using later(5) by blast
  qed
qed

text \<open>The first of the greatest (smallest) elements of a non-empty list.\<close>

lemma py_max_first:
  "\<exists>ys x zs. b # xs = ys @ x # zs \<and> py_max key b xs = x \<and>
      (\<forall>y \<in> set ys. key y < key x) \<and> (\<forall>z \<in> set zs. key z \<le> key x)"
proof -
  from py_max_cases [of key b xs] consider
    (same) "py_max key b xs = b" "\<forall>x \<in> set xs. key x \<le> key b"
    | (later) ys x zs where "xs = ys @ x # zs" "py_max key b xs = x" "key b < key x"
      "\<forall>y \<in> set ys. key y < key x" "\<forall>z \<in> set zs. key z \<le> key x"
    by blast
  then show ?thesis
  proof cases
    case same
    then have "b # xs = [] @ b # xs \<and> py_max key b xs = b \<and>
      (\<forall>y \<in> set []. key y < key b) \<and> (\<forall>z \<in> set xs. key z \<le> key b)" by simp
    then show ?thesis by blast
  next
    case later
    then have "b # xs = (b # ys) @ x # zs \<and> py_max key b xs = x \<and>
      (\<forall>y \<in> set (b # ys). key y < key x) \<and> (\<forall>z \<in> set zs. key z \<le> key x)" by simp
    then show ?thesis by blast
  qed
qed

lemma py_min_first:
  "\<exists>ys x zs. b # xs = ys @ x # zs \<and> py_min key b xs = x \<and>
      (\<forall>y \<in> set ys. key x < key y) \<and> (\<forall>z \<in> set zs. key x \<le> key z)"
proof -
  from py_min_cases [of key b xs] consider
    (same) "py_min key b xs = b" "\<forall>x \<in> set xs. key b \<le> key x"
    | (later) ys x zs where "xs = ys @ x # zs" "py_min key b xs = x" "key x < key b"
      "\<forall>y \<in> set ys. key x < key y" "\<forall>z \<in> set zs. key x \<le> key z"
    by blast
  then show ?thesis
  proof cases
    case same
    then have "b # xs = [] @ b # xs \<and> py_min key b xs = b \<and>
      (\<forall>y \<in> set []. key b < key y) \<and> (\<forall>z \<in> set xs. key b \<le> key z)" by simp
    then show ?thesis by blast
  next
    case later
    then have "b # xs = (b # ys) @ x # zs \<and> py_min key b xs = x \<and>
      (\<forall>y \<in> set (b # ys). key x < key y) \<and> (\<forall>z \<in> set zs. key x \<le> key z)" by simp
    then show ?thesis by blast
  qed
qed

lemma select_version_first:
  assumes "vs \<noteq> []"
  shows "\<exists>ys x zs. vs = ys @ x # zs \<and> select_version strategy vs = Some x \<and>
     (strategy = ''newest'' \<longrightarrow>
        (\<forall>y \<in> set ys. updated_at (fst y) < updated_at (fst x)) \<and>
        (\<forall>z \<in> set zs. updated_at (fst z) \<le> updated_at (fst x))) \<and>
     (strategy = ''oldest'' \<longrightarrow>
        (\<forall>y \<in> set ys. updated_at (fst x) < updated_at (fst y)) \<and>
        (\<forall>z \<in> set zs. updated_at (fst x) \<le> updated_at (fst z))) \<and>
     (strategy = ''largest'' \<longrightarrow>
        (\<forall>y \<in> set ys. length (content (fst y)) < length (content (fst x))) \<and>
        (\<forall>z \<in> set zs. length (content (fst z)) \<le> length (content (fst x)))) \<and>
     (strategy \<notin> {''newest'', ''oldest'', ''largest''} \<longrightarrow> ys = [])"
proof (cases vs)
  case Nil
  then show ?thesis using assms by simp
next
  case (Cons v ws)
  show ?thesis
  proof (cases ws)
    case Nil
    then have "vs = [] @ v # []" "select_version strategy vs = Some v"
      using Cons by simp_all
    then show ?thesis
      by (intro exI [of _ "[]"] exI [of _ v]) simp
  next
    case ws: (Cons w ws')
    consider (newest) "strategy = ''newest''" | (oldest) "strategy = ''oldest''"
      | (largest) "strategy = ''largest''"
      | (first) "strategy \<notin> {''newest'', ''oldest'', ''largest''}"
      by blast
    then show ?thesis
    proof cases
      case newest
      have sel: "select_version strategy vs = Some (py_max (\<lambda>x. updated_at (fst x)) v ws)"
        using newest Cons ws by simp
      obtain ys x zs where d: "v # ws = ys @ x # zs"
        "py_max (\<lambda>x. updated_at (fst x)) v ws = x"
        "\<forall>y \<in> set ys. updated_at (fst y) < updated_at (fst x)"
        "\<forall>z \<in> set zs. updated_at (fst z) \<le> updated_at (fst x)"
        using py_max_first [of v ws "\<lambda>x. updated_at (fst x)"] by blast
      have e: "vs = ys @ x # zs" "select_version strategy vs = Some x"
        using d(1,2) sel Cons by simp_all
      show ?thesis
        apply (rule exI [of _ ys], rule exI [of _ x], rule exI [of _ zs])
        using e d(3,4) newest by simp
    next
      case oldest
      have sel: "select_version strategy vs = Some (py_min (\<lambda>x. updated_at (fst x)) v ws)"
        using oldest Cons ws by simp
      obtain ys x zs where d: "v # ws = ys @ x # zs"
        "py_min (\<lambda>x. updated_at (fst x)) v ws = x"
        "\<forall>y \<in> set ys. updated_at (fst x) < updated_at (fst y)"
        "\<forall>z \<in> set zs. updated_at (fst x) \<le> updated_at (fst z)"
        using py_min_first [of v ws "\<lambda>x. updated_at (fst x)"] by blast
      have e: "vs = ys @ x # zs" "select_version strategy vs = Some x"
        using d(1,2) sel Cons by simp_all
      show ?thesis
        apply (rule exI [of _ ys], rule exI [of _ x], rule exI [of _ zs])
        using e d(3,4) oldest by simp
    next
      case largest
      have sel: "select_version strategy vs =
          Some (py_max (\<lambda>x. length (content (fst x))) v ws)"
        using largest Cons ws by simp
      obtain ys x zs where d: "v # ws = ys @ x # zs"
        "py_max (\<lambda>x. length (content (fst x))) v ws = x"
        "\<forall>y \<in> set ys. length (content (fst y)) < length (content (fst x))"
        "\<forall>z \<in> set zs. length (content (fst z)) \<le> length (content (fst x))"
        using py_max_first [of v ws "\<lambda>x. length (content (fst x))"] by blast
      have e: "vs = ys @ x # zs" "select_version strategy vs = Some x"
        using d(1,2) sel Cons by simp_all
      show ?thesis
        apply (rule exI [of _ ys], rule exI [of _ x], rule exI [of _ zs])
        using e d(3,4) largest by simp
    next
      case first
      have e: "vs = [] @ v # ws" "select_version strategy vs = Some v"
        using first Cons ws by simp_all
      show ?thesis
        apply (rule exI [of _ "[]"], rule exI [of _ v], rule exI [of _ ws])
        using e first by simp
    qed
  qed
qed

subsection \<open>The dictionary of versions\<close>

lemma dict_append_map_of:
  "map_of (dict_append k v d) k' =
     (if k' = k then Some ((case map_of d k of None \<Rightarrow> [] | Some vs \<Rightarrow> vs) @ [v])
      else map_of d k')"
  by (induction d) auto

lemma dict_append_keys: "set (map fst (dict_append k v d)) = insert k (set (map fst d))"
  by (induction d) auto

lemma dict_append_distinct:
  "distinct (map fst d) \<Longrightarrow> distinct (map fst (dict_append k v d))"
proof (induction d)
  case Nil
  then show ?case by simp
next
  case (Cons e es)
  then show ?case
    using dict_append_keys [of k v es] by auto
qed

lemma collect_files_append:
  "collect_files clock (fs @ gs) cs = collect_files clock gs (collect_files clock fs cs)"
  by (induction fs arbitrary: cs) (auto split: prod.splits option.splits)

lemma collect_files_total_same [simp]:
  "cs_total_files (collect_files clock fs cs) = cs_total_files cs"
  by (induction fs arbitrary: cs) (auto split: prod.splits option.splits)

text \<open>The dictionary, the index of the clock and the counters do not depend on the number of files.\<close>

lemma collect_files_fields:
  assumes "all_notes cs = all_notes cs'" and "cs_parsed cs = cs_parsed cs'"
    and "cs_stats cs = cs_stats cs'"
  shows "all_notes (collect_files clock fs cs) = all_notes (collect_files clock fs cs') \<and>
         cs_parsed (collect_files clock fs cs) = cs_parsed (collect_files clock fs cs') \<and>
         cs_stats (collect_files clock fs cs) = cs_stats (collect_files clock fs cs')"
  using assms
proof (induction fs arbitrary: cs cs')
  case Nil
  then show ?case by simp
next
  case (Cons f fs)
  obtain r s1 where p: "parse_note_from_markdown (clock (cs_parsed cs)) f (cs_stats cs) = (r, s1)"
    by (cases "parse_note_from_markdown (clock (cs_parsed cs)) f (cs_stats cs)") auto
  then have p': "parse_note_from_markdown (clock (cs_parsed cs')) f (cs_stats cs') = (r, s1)"
    using Cons.prems by simp
  show ?case
  proof (cases r)
    case None
    have "all_notes (cs\<lparr>cs_parsed := Suc (cs_parsed cs), cs_stats := s1\<rparr>) =
          all_notes (cs'\<lparr>cs_parsed := Suc (cs_parsed cs'), cs_stats := s1\<rparr>)"
      "cs_parsed (cs\<lparr>cs_parsed := Suc (cs_parsed cs), cs_stats := s1\<rparr>) =
          cs_parsed (cs'\<lparr>cs_parsed := Suc (cs_parsed cs'), cs_stats := s1\<rparr>)"
      "cs_stats (cs\<lparr>cs_parsed := Suc (cs_parsed cs), cs_stats := s1\<rparr>) =
          cs_stats (cs'\<lparr>cs_parsed := Suc (cs_parsed cs'), cs_stats := s1\<rparr>)"
      using Cons.prems by simp_all
    from Cons.IH [OF this] show ?thesis
      using p p' None by simp
  next
    case (Some n)
    let ?d = "dict_append (note_id n) (n, file_path f) (all_notes cs)"
    let ?d' = "dict_append (note_id n) (n, file_path f) (all_notes cs')"
    have "all_notes (cs\<lparr>all_notes := ?d, cs_parsed := Suc (cs_parsed cs), cs_stats := s1\<rparr>) =
          all_notes (cs'\<lparr>all_notes := ?d', cs_parsed := Suc (cs_parsed cs'), cs_stats := s1\<rparr>)"
      "cs_parsed (cs\<lparr>all_notes := ?d, cs_parsed := Suc (cs_parsed cs), cs_stats := s1\<rparr>) =
          cs_parsed (cs'\<lparr>all_notes := ?d', cs_parsed := Suc (cs_parsed cs'), cs_stats := s1\<rparr>)"
      "cs_stats (cs\<lparr>all_notes := ?d, cs_parsed := Suc (cs_parsed cs), cs_stats := s1\<rparr>) =
          cs_stats (cs'\<lparr>all_notes := ?d', cs_parsed := Suc (cs_parsed cs'), cs_stats := s1\<rparr>)"
      using Cons.prems by simp_all
    from Cons.IH [OF this] show ?thesis
      using p p' Some by simp
  qed
qed

lemma collect_dirs_files:
  "all_notes (collect_dirs clock ds cs) =
     all_notes (collect_files clock (concat (map dir_md_files ds)) cs) \<and>
   cs_parsed (collect_dirs clock ds cs) =
     cs_parsed (collect_files clock (concat (map dir_md_files ds)) cs) \<and>
   cs_stats (collect_dirs clock ds cs) =
     cs_stats (collect_files clock (concat (map dir_md_files ds)) cs) \<and>
   cs_total_files (collect_dirs clock ds cs) =
     cs_total_files cs + length (concat (map dir_md_files ds))"
proof (induction ds arbitrary: cs)
  case Nil
  then show ?case by simp
next
  case (Cons d ds)
  show ?case
  proof (cases "dir_entries d")
    case None
    then show ?thesis by (simp add: Cons dir_md_files_def)
  next
    case (Some entries)
    let ?fs = "md_files entries"
    let ?gs = "concat (map dir_md_files ds)"
    let ?cs1 = "cs\<lparr>cs_total_files := cs_total_files cs + length ?fs\<rparr>"
    have 1: "collect_dirs clock (d # ds) cs = collect_dirs clock ds (collect_files clock ?fs ?cs1)"
      using Some by simp
    have 2: "concat (map dir_md_files (d # ds)) = ?fs @ ?gs"
      using Some by (simp add: dir_md_files_def)
    have "all_notes (collect_files clock ?fs ?cs1) = all_notes (collect_files clock ?fs cs) \<and>
          cs_parsed (collect_files clock ?fs ?cs1) = cs_parsed (collect_files clock ?fs cs) \<and>
          cs_stats (collect_files clock ?fs ?cs1) = cs_stats (collect_files clock ?fs cs)"
      by (rule collect_files_fields) simp_all
    then have 3:
      "all_notes (collect_files clock ?gs (collect_files clock ?fs ?cs1)) =
         all_notes (collect_files clock ?gs (collect_files clock ?fs cs)) \<and>
       cs_parsed (collect_files clock ?gs (collect_files clock ?fs ?cs1)) =
         cs_parsed (collect_files clock ?gs (collect_files clock ?fs cs)) \<and>
       cs_stats (collect_files clock ?gs (collect_files clock ?fs ?cs1)) =
         cs_stats (collect_files clock ?gs (collect_files clock ?fs cs))"
      by (intro collect_files_fields) simp_all
    show ?thesis
      unfolding 1 2 collect_files_append
      using Cons [of "collect_files clock ?fs ?cs1"] 3 by simp
  qed
qed

lemma collect_files_distinct:
  "distinct (map fst (all_notes cs)) \<Longrightarrow>
   distinct (map fst (all_notes (collect_files clock fs cs)))"
proof (induction fs arbitrary: cs)
  case Nil
  then show ?case by simp
next
  case (Cons f fs)
  obtain r s1 where p: "parse_note_from_markdown (clock (cs_parsed cs)) f (cs_stats cs) = (r, s1)"
    by (cases "parse_note_from_markdown (clock (cs_parsed cs)) f (cs_stats cs)") auto
  show ?case
  proof (cases r)
    case None
    then show ?thesis
      using p Cons.prems
        Cons.IH [of "cs\<lparr>cs_parsed := Suc (cs_parsed cs), cs_stats := s1\<rparr>"]
      by simp
  next
    case (Some n)
    then show ?thesis
      using p dict_append_distinct [OF Cons.prems, of "note_id n" "(n, file_path f)"]
        Cons.IH [of "cs\<lparr>all_notes := dict_append (note_id n) (n, file_path f) (all_notes cs),
                       cs_parsed := Suc (cs_parsed cs), cs_stats := s1\<rparr>"]
      by simp
  qed
qed

lemma collect_files_versions:
  "map_of (all_notes (collect_files clock fs cs)) k =
     (let new = filter (\<lambda>v. note_id (fst v) = k)
                  (encountered clock (cs_parsed cs) fs (cs_stats cs))
      in if new = [] then map_of (all_notes cs) k
         else Some ((case map_of (all_notes cs) k of None \<Rightarrow> [] | Some vs \<Rightarrow> vs) @ new))"
proof (induction fs arbitrary: cs)
  case Nil
  then show ?case by simp
next
  case (Cons f fs)
  obtain r s1 where p: "parse_note_from_markdown (clock (cs_parsed cs)) f (cs_stats cs) = (r, s1)"
    by (cases "parse_note_from_markdown (clock (cs_parsed cs)) f (cs_stats cs)") auto
  show ?case
  proof (cases r)
    case None
    then show ?thesis using p by (simp add: Cons Let_def)
  next
    case (Some n)
    then show ?thesis
      using p by (simp add: Cons dict_append_map_of Let_def split: option.splits)
  qed
qed

lemma collected_versions:
  assumes "(k, vs) \<in> set (all_notes (collect_dirs clock dirs
             \<lparr>all_notes = [], cs_total_files = 0, cs_parsed = 0, cs_stats = stats\<rparr>))"
  shows "vs = filter (\<lambda>v. note_id (fst v) = k)
                (encountered clock 0 (concat (map dir_md_files dirs)) stats)"
    and "vs \<noteq> []"
proof -
  let ?cs0 = "\<lparr>all_notes = [], cs_total_files = 0, cs_parsed = 0, cs_stats = stats\<rparr>"
  let ?fs = "concat (map dir_md_files dirs)"
  let ?new = "filter (\<lambda>v. note_id (fst v) = k) (encountered clock 0 ?fs stats)"
  have a: "all_notes (collect_dirs clock dirs ?cs0) = all_notes (collect_files clock ?fs ?cs0)"
    using collect_dirs_files [of clock dirs ?cs0] by simp
  have "distinct (map fst (all_notes (collect_files clock ?fs ?cs0)))"
    by (rule collect_files_distinct) simp
  then have "map_of (all_notes (collect_files clock ?fs ?cs0)) k = Some vs"
    using assms a by simp
  moreover have "map_of (all_notes (collect_files clock ?fs ?cs0)) k =
      (if ?new = [] then None else Some ?new)"
    using collect_files_versions [of clock ?fs ?cs0 k] by (simp add: Let_def)
  ultimately have "(if ?new = [] then None else Some ?new) = Some vs" by simp
  then show "vs = ?new" and "vs \<noteq> []"
    by (auto split: if_splits)
qed

lemma notes_to_import_selected:
  "map Some (notes_to_import strategy d) =
     filter (\<lambda>x. x \<noteq> None) (map (\<lambda>e. map_option fst (select_version strategy (snd e))) d)"
  by (induction d) (auto simp: notes_to_import_def split: option.splits)

lemma notes_to_import_ids:
  assumes "\<forall>e \<in> set d. snd e \<noteq> [] \<and> (\<forall>v \<in> set (snd e). note_id (fst v) = fst e)"
  shows "map note_id (notes_to_import strategy d) = map fst d"
  using assms
proof (induction d)
  case Nil
  then show ?case by (simp add: notes_to_import_def)
next
  case (Cons e d)
  then have ne: "snd e \<noteq> []" and ids: "\<forall>v \<in> set (snd e). note_id (fst v) = fst e"
    by simp_all
  obtain ys x zs where x: "snd e = ys @ x # zs" "select_version strategy (snd e) = Some x"
    using select_version_first [OF ne, of strategy] by blast
  then have "note_id (fst x) = fst e" using ids by simp
  moreover have "notes_to_import strategy (e # d) = fst x # notes_to_import strategy d"
    using x(2) by (simp add: notes_to_import_def)
  moreover have "map note_id (notes_to_import strategy d) = map fst d"
    using Cons by simp
  ultimately show ?case by simp
qed

lemma notes_to_import_mem:
  assumes "(k, vs) \<in> set d" and "select_version strategy vs = Some x"
  shows "fst x \<in> set (notes_to_import strategy d)"
proof -
  have "fst x \<in> set (case select_version strategy (snd (k, vs)) of
                        None \<Rightarrow> [] | Some selected \<Rightarrow> [fst selected])"
    using assms(2) by simp
  then show ?thesis
    unfolding notes_to_import_def set_concat set_map using assms(1) by blast
qed

text \<open>
  Claim C4.  Let the dictionary of \<open>merge_imports\<close> hold the versions \<open>vs\<close> for an id.  Then
  \<open>vs\<close> is the list of the notes with that id in the order in which their files are read,
  directory after directory in the order of the list of directories and, in a directory,
  file after file.  The strategy selects one version \<open>x\<close> of them, and its note is among
  the notes that are imported: under \<open>newest\<close> every version before \<open>x\<close> has an earlier
  \<open>updated_at\<close> and no version after it a later one; under \<open>oldest\<close> every version before
  \<open>x\<close> has a later \<open>updated_at\<close> and none after it an earlier one; under \<open>largest\<close> every
  version before \<open>x\<close> has a shorter content and none after it a longer one; under any
  other strategy, such as \<open>first\<close>, \<open>x\<close> is the first version.  So a tie goes to the version
  read first.  The ids of the dictionary are distinct, and the notes that are imported
  are one note for each id.
\<close>

theorem C4_merge_strategy:
  assumes cs: "cs = collect_dirs clock dirs
                 \<lparr>all_notes = [], cs_total_files = 0, cs_parsed = 0, cs_stats = stats\<rparr>"
    and e: "(k, vs) \<in> set (all_notes cs)"
  shows "vs = filter (\<lambda>v. note_id (fst v) = k)
                (encountered clock 0 (concat (map dir_md_files dirs)) stats) \<and>
     (\<exists>ys x zs. vs = ys @ x # zs \<and> select_version strategy vs = Some x \<and>
       (strategy = ''newest'' \<longrightarrow>
          (\<forall>y \<in> set ys. updated_at (fst y) < updated_at (fst x)) \<and>
          (\<forall>z \<in> set zs. updated_at (fst z) \<le> updated_at (fst x))) \<and>
       (strategy = ''oldest'' \<longrightarrow>
          (\<forall>y \<in> set ys. updated_at (fst x) < updated_at (fst y)) \<and>
          (\<forall>z \<in> set zs. updated_at (fst x) \<le> updated_at (fst z))) \<and>
       (strategy = ''largest'' \<longrightarrow>
          (\<forall>y \<in> set ys. length (content (fst y)) < length (content (fst x))) \<and>
          (\<forall>z \<in> set zs. length (content (fst z)) \<le> length (content (fst x)))) \<and>
       (strategy \<notin> {''newest'', ''oldest'', ''largest''} \<longrightarrow> ys = []) \<and>
       fst x \<in> set (notes_to_import strategy (all_notes cs))) \<and>
     distinct (map fst (all_notes cs)) \<and>
     map note_id (notes_to_import strategy (all_notes cs)) = map fst (all_notes cs)"
proof (intro conjI)
  let ?cs0 = "\<lparr>all_notes = [], cs_total_files = 0, cs_parsed = 0, cs_stats = stats\<rparr>"
  have e': "(k, vs) \<in> set (all_notes (collect_dirs clock dirs ?cs0))"
    using e cs by simp
  show v: "vs = filter (\<lambda>v. note_id (fst v) = k)
                (encountered clock 0 (concat (map dir_md_files dirs)) stats)"
    by (rule collected_versions(1) [OF e'])
  have ne: "vs \<noteq> []" by (rule collected_versions(2) [OF e'])
  from select_version_first [OF ne, of strategy]
  obtain ys x zs where x: "vs = ys @ x # zs \<and> select_version strategy vs = Some x \<and>
       (strategy = ''newest'' \<longrightarrow>
          (\<forall>y \<in> set ys. updated_at (fst y) < updated_at (fst x)) \<and>
          (\<forall>z \<in> set zs. updated_at (fst z) \<le> updated_at (fst x))) \<and>
       (strategy = ''oldest'' \<longrightarrow>
          (\<forall>y \<in> set ys. updated_at (fst x) < updated_at (fst y)) \<and>
          (\<forall>z \<in> set zs. updated_at (fst x) \<le> updated_at (fst z))) \<and>
       (strategy = ''largest'' \<longrightarrow>
          (\<forall>y \<in> set ys. length (content (fst y)) < length (content (fst x))) \<and>
          (\<forall>z \<in> set zs. length (content (fst z)) \<le> length (content (fst x)))) \<and>
       (strategy \<notin> {''newest'', ''oldest'', ''largest''} \<longrightarrow> ys = [])"
    by (elim exE) (rule that)
  have sel: "select_version strategy vs = Some x"
    using x by (rule conjunct1 [OF conjunct2])
  have mem: "fst x \<in> set (notes_to_import strategy (all_notes cs))"
    by (rule notes_to_import_mem [OF e sel])
  show "\<exists>ys x zs. vs = ys @ x # zs \<and> select_version strategy vs = Some x \<and>
       (strategy = ''newest'' \<longrightarrow>
          (\<forall>y \<in> set ys. updated_at (fst y) < updated_at (fst x)) \<and>
          (\<forall>z \<in> set zs. updated_at (fst z) \<le> updated_at (fst x))) \<and>
       (strategy = ''oldest'' \<longrightarrow>
          (\<forall>y \<in> set ys. updated_at (fst x) < updated_at (fst y)) \<and>
          (\<forall>z \<in> set zs. updated_at (fst x) \<le> updated_at (fst z))) \<and>
       (strategy = ''largest'' \<longrightarrow>
          (\<forall>y \<in> set ys. length (content (fst y)) < length (content (fst x))) \<and>
          (\<forall>z \<in> set zs. length (content (fst z)) \<le> length (content (fst x)))) \<and>
       (strategy \<notin> {''newest'', ''oldest'', ''largest''} \<longrightarrow> ys = []) \<and>
       fst x \<in> set (notes_to_import strategy (all_notes cs))"
    apply (rule exI [of _ ys], rule exI [of _ x], rule exI [of _ zs])
    apply (insert x mem)
    apply (elim conjE)
    apply (intro conjI)
    by assumption+
  have a: "all_notes cs = all_notes (collect_files clock (concat (map dir_md_files dirs)) ?cs0)"
    using collect_dirs_files [of clock dirs ?cs0] cs by simp
  show "distinct (map fst (all_notes cs))"
    unfolding a by (rule collect_files_distinct) simp
  have "\<forall>e \<in> set (all_notes cs). snd e \<noteq> [] \<and> (\<forall>v \<in> set (snd e). note_id (fst v) = fst e)"
  proof
    fix e' assume "e' \<in> set (all_notes cs)"
    then have m: "(fst e', snd e') \<in> set (all_notes (collect_dirs clock dirs ?cs0))"
      using cs by simp
    from collected_versions [OF m]
    have f: "snd e' = filter (\<lambda>v. note_id (fst v) = fst e')
                (encountered clock 0 (concat (map dir_md_files dirs)) stats)"
      and n: "snd e' \<noteq> []" .
    have "\<forall>v \<in> set (snd e'). note_id (fst v) = fst e'"
      by (subst f) simp
    then show "snd e' \<noteq> [] \<and> (\<forall>v \<in> set (snd e'). note_id (fst v) = fst e')"
      using n by simp
  qed
  then show "map note_id (notes_to_import strategy (all_notes cs)) = map fst (all_notes cs)"
    by (rule notes_to_import_ids)
qed

lemma md_files_exported:
  assumes "\<not> prefix ''_'' (note_id n @ ''.md'')"
  shows "md_files [exported_file d t n] = [exported_file d t n]"
  using assms by (simp add: md_files_def exported_file_def suffix_def)

lemma ex_collected_notes:
  "\<exists>p1 p2. all_notes ex_collected =
       [(''n1'', [(p1, ''import1/n1.md''), (p2, ''import2/n1.md'')])] \<and>
     updated_at p1 = ex_time \<and> updated_at p2 = ex_mid \<and>
     content p1 = ''Content'' \<and> content p2 = ''Content''"
proof -
  let ?n1 = "ex_note ''n1'' []" and ?n2 = "ex_note_edited ''n1''"
  let ?f1 = "exported_file ''import1'' ex_time ?n1"
  let ?f2 = "exported_file ''import2'' ex_time ?n2"
  let ?cs0 = "\<lparr>all_notes = [], cs_total_files = 0, cs_parsed = 0, cs_stats = ex_stats\<rparr>"
  have v: "valid_datetime ex_mid" by (simp add: ex_mid_def days_in_month_def)
  have h1: "encodable_header ?n1"
    by (simp add: encodable_header_def ex_note_def)
  have h2: "encodable_header ?n2"
    by (simp add: encodable_header_def ex_note_edited_def ex_note_def v)
  define p1 where "p1 =
     \<lparr>note_id = note_id ?n1, title = title ?n1,
      content = strip (join [newline] (content_parts ?n1)),
      note_type = note_type ?n1, tags = tags ?n1,
      links = extract_links_from_content ex_later (note_id ?n1)
                (join [newline] (content_parts ?n1)),
      created_at = created_at ?n1, updated_at = updated_at ?n1,
      metadata = extra_metadata_of (export_metadata ?n1)\<rparr>"
  define p2 where "p2 =
     \<lparr>note_id = note_id ?n2, title = title ?n2,
      content = strip (join [newline] (content_parts ?n2)),
      note_type = note_type ?n2, tags = tags ?n2,
      links = extract_links_from_content ex_later (note_id ?n2)
                (join [newline] (content_parts ?n2)),
      created_at = created_at ?n2, updated_at = updated_at ?n2,
      metadata = extra_metadata_of (export_metadata ?n2)\<rparr>"
  have pe1: "parse_note_from_markdown ex_later ?f1 st = (Some p1, st)" for st
    unfolding p1_def by (rule parse_exported [OF h1])
  have pe2: "parse_note_from_markdown ex_later ?f2 st = (Some p2, st)" for st
    unfolding p2_def by (rule parse_exported [OF h2])
  have s: "strip ''Content'' = ''Content''" by (rule strip_id) simp_all
  have i: "note_id p1 = ''n1''" "note_id p2 = ''n1''" "updated_at p1 = ex_time"
    "updated_at p2 = ex_mid" "content p1 = ''Content''" "content p2 = ''Content''"
    by (simp_all add: p1_def p2_def ex_note_edited_def ex_note_def content_parts_def s)
  have fp: "file_path ?f1 = ''import1/n1.md''" "file_path ?f2 = ''import2/n1.md''"
    by (simp_all add: exported_file_def ex_note_edited_def ex_note_def)
  have m: "md_files [?f1] = [?f1]" "md_files [?f2] = [?f2]"
    by (rule md_files_exported, simp add: ex_note_edited_def ex_note_def)+
  have "all_notes ex_collected = all_notes (collect_files (\<lambda>k. ex_later) [?f1, ?f2] ?cs0)"
    using collect_dirs_files [of "\<lambda>k. ex_later" "[ex_dir1, ex_dir2]" ?cs0]
    by (simp add: ex_collected_def dir_md_files_def ex_dir1_def ex_dir2_def m)
  also have "\<dots> = [(''n1'', [(p1, ''import1/n1.md''), (p2, ''import2/n1.md'')])]"
    by (simp add: pe1 pe2 i fp)
  finally show ?thesis using i by blast
qed

theorem C4_witness:
  "map fst (all_notes ex_collected) = [''n1''] \<and>
   map_option (map (\<lambda>v. (updated_at (fst v), length (content (fst v)), snd v)))
     (map_of (all_notes ex_collected) ''n1'') =
     Some [(ex_time, 7, ''import1/n1.md''), (ex_mid, 7, ''import2/n1.md'')] \<and>
   map_option (\<lambda>vs. map_option snd (select_version ''newest'' vs))
     (map_of (all_notes ex_collected) ''n1'') = Some (Some ''import2/n1.md'') \<and>
   map_option (\<lambda>vs. map_option snd (select_version ''oldest'' vs))
     (map_of (all_notes ex_collected) ''n1'') = Some (Some ''import1/n1.md'') \<and>
   map_option (\<lambda>vs. map_option snd (select_version ''largest'' vs))
     (map_of (all_notes ex_collected) ''n1'') = Some (Some ''import1/n1.md'') \<and>
   map_option (\<lambda>vs. map_option snd (select_version ''first'' vs))
     (map_of (all_notes ex_collected) ''n1'') = Some (Some ''import1/n1.md'') \<and>
   map note_id (notes_to_import ''newest'' (all_notes ex_collected)) = [''n1'']"
proof -
  obtain p1 p2 where a: "all_notes ex_collected =
       [(''n1'', [(p1, ''import1/n1.md''), (p2, ''import2/n1.md'')])]"
    and i: "updated_at p1 = ex_time" "updated_at p2 = ex_mid"
      "content p1 = ''Content''" "content p2 = ''Content''"
    using ex_collected_notes by blast
  have e: "(''n1'', [(p1, ''import1/n1.md''), (p2, ''import2/n1.md'')])
      \<in> set (all_notes ex_collected)"
    by (simp add: a)
  note T = C4_merge_strategy [OF ex_collected_def e, of "''newest''"]
  have 1: "map note_id (notes_to_import ''newest'' (all_notes ex_collected)) = [''n1'']"
    using T [THEN conjunct2, THEN conjunct2, THEN conjunct2] by (simp add: a)
  have lt: "ex_time < ex_mid" by (simp add: ex_time_def ex_mid_def)
  show ?thesis
    using 1 lt by (simp add: a i)
qed

section \<open>Properties of the decoders: missing id and title\<close>





end
